theory Spec2Isabelle
  imports Complex_Main
begin

unbundle bit_operations_syntax

section \<open>Model of the activity service\<close>

text \<open>
  The definitions below follow \<^verbatim>\<open>server.js\<close> and the store gateway
  \<^verbatim>\<open>dynamodb.js\<close>, function by function and under the names the source uses.
  Everything the program obtains from outside (the upstream provider, the two geocoding
  services, the outcome of each request to the table, the wall clock) is an explicit
  argument, so each function is a pure function of its inputs and of that environment.
\<close>

subsection \<open>JavaScript numbers and the 32-bit operators\<close>

text \<open>
  A string is its sequence of UTF-16 code units. \<^verbatim>\<open>charCodeAt\<close> past the end is
  \<^verbatim>\<open>NaN\<close>, written \<open>None\<close>; arithmetic keeps \<^verbatim>\<open>NaN\<close>, a comparison with it is
  false and the bitwise operators read it as 0. The bitwise operators first bring their
  operands into the signed 32-bit range (\<open>toInt32\<close>), and a shift count is taken
  modulo 32. Integers outside that range stay exact (they are far below \<open>2^53\<close>).
\<close>

type_synonym jsstring = "nat list"

definition code_units :: "string \<Rightarrow> jsstring" where
  "code_units s = map of_char s"

definition charCodeAt :: "jsstring \<Rightarrow> nat \<Rightarrow> int option" where
  "charCodeAt s i = (if i < length s then Some (int (s ! i)) else None)"

definition toInt32 :: "int \<Rightarrow> int" where
  "toInt32 x = signed_take_bit 31 x"

definition js_minus :: "int option \<Rightarrow> int \<Rightarrow> int option" where
  "js_minus a b = map_option (\<lambda>x. x - b) a"

definition js_and :: "int option \<Rightarrow> int \<Rightarrow> int" where
  "js_and a b = (case a of None \<Rightarrow> 0 | Some x \<Rightarrow> toInt32 x AND toInt32 b)"

definition js_shl :: "int \<Rightarrow> nat \<Rightarrow> int" where
  "js_shl x s = toInt32 (push_bit (s mod 32) (toInt32 x))"

definition js_or :: "int \<Rightarrow> int \<Rightarrow> int" where
  "js_or a b = toInt32 a OR toInt32 b"

definition js_sar :: "int \<Rightarrow> nat \<Rightarrow> int" where
  "js_sar x s = drop_bit (s mod 32) (toInt32 x)"

definition js_not :: "int \<Rightarrow> int" where
  "js_not x = NOT (toInt32 x)"

definition js_ge :: "int option \<Rightarrow> int \<Rightarrow> bool" where
  "js_ge a b = (case a of None \<Rightarrow> False | Some x \<Rightarrow> b \<le> x)"

subsection \<open>The polyline decoder\<close>

text \<open>
  A coordinate is \<^verbatim>\<open>{lat, lng}\<close>. The accumulators are integers in units of
  \<open>10^-5\<close> degree; the final division by \<^verbatim>\<open>1e5\<close> is the exact quotient,
  a rational number (the program rounds it to the nearest double).
\<close>

record coordinate =
  lat :: rat
  lng :: rat

text \<open>
  One \<^verbatim>\<open>do { ... } while (byte >= 0x20)\<close> loop of \<^verbatim>\<open>decodePolyline\<close>: it
  returns the accumulated \<^verbatim>\<open>result\<close> and the index after the last unit read.
\<close>

function decodeValue :: "jsstring \<Rightarrow> nat \<Rightarrow> int \<Rightarrow> nat \<Rightarrow> int \<times> nat" where
  "decodeValue encoded index result shift =
     (let byte = js_minus (charCodeAt encoded index) 63;
          index' = index + 1;
          result' = js_or result (js_shl (js_and byte 0x1f) shift);
          shift' = shift + 5
      in if js_ge byte 0x20 then decodeValue encoded index' result' shift'
         else (result', index'))"
  by pat_completeness auto
termination
  by (relation "measure (\<lambda>(encoded, index, result, shift). length encoded - index)")
     (auto simp: js_ge_def js_minus_def charCodeAt_def split: option.splits if_splits)

declare decodeValue.simps [simp del]

text \<open>
  \<^verbatim>\<open>(result & 1) !== 0 ? ~(result >> 1) : result >> 1\<close>
\<close>

definition zigzag :: "int \<Rightarrow> int" where
  "zigzag result = (if js_and (Some result) 1 \<noteq> 0 then js_not (js_sar result 1) else js_sar result 1)"

text \<open>The outer \<^verbatim>\<open>while (index < encoded.length)\<close> loop.\<close>

function decodeLoop :: "jsstring \<Rightarrow> nat \<Rightarrow> int \<Rightarrow> int \<Rightarrow> coordinate list \<Rightarrow> coordinate list" where
  "decodeLoop encoded index latAcc lngAcc coordinates =
     (if index < length encoded then
        (case decodeValue encoded index 0 0 of (result1, index1) \<Rightarrow>
           let latAcc' = latAcc + zigzag result1 in
           case decodeValue encoded index1 0 0 of (result2, index2) \<Rightarrow>
             let lngAcc' = lngAcc + zigzag result2 in
             decodeLoop encoded index2 latAcc' lngAcc'
               (coordinates @ [\<lparr>lat = of_int latAcc' / 100000, lng = of_int lngAcc' / 100000\<rparr>]))
      else coordinates)"
  by pat_completeness auto
termination
proof (relation "measure (\<lambda>(encoded, index, latAcc, lngAcc, coordinates). length encoded - index)")
  show "wf (measure (\<lambda>(encoded, index, latAcc, lngAcc, coordinates). length encoded - index))"
    by simp
next
  fix encoded index latAcc lngAcc and coordinates :: "coordinate list"
    and x result1 index1 xa xb result2 index2 xc
  assume a: "index < length encoded" "(result1, index1) = decodeValue encoded index 0 0"
    "(result2, index2) = decodeValue encoded index1 0 0"
  have adv: "i < snd (decodeValue e i r s)" for e i r s
  proof (induction e i r s rule: decodeValue.induct)
    case (1 encoded index result shift)
    show ?case
      by (subst decodeValue.simps) (use 1 in \<open>auto simp: Let_def intro: Suc_lessD\<close>)
  qed
  have "index < index1" using adv[of index encoded 0 0] a(2)[symmetric] by simp
  moreover have "index1 < index2" using adv[of index1 encoded 0 0] a(3)[symmetric] by simp
  ultimately show "((encoded, index2, xb, xc,
        coordinates @ [\<lparr>lat = of_int xb / 100000, lng = of_int xc / 100000\<rparr>]),
        encoded, index, latAcc, lngAcc, coordinates)
      \<in> measure (\<lambda>(encoded, index, latAcc, lngAcc, coordinates). length encoded - index)"
    using a(1) by simp
qed

declare decodeLoop.simps [simp del]

definition decodePolyline :: "jsstring \<Rightarrow> coordinate list" where
  "decodePolyline encoded = decodeLoop encoded 0 0 0 []"

subsection \<open>The encoding the decoder is specified against\<close>

text \<open>
  The standard signed-delta polyline encoding, as the specification words it: a value is
  a run of characters, each the code \<open>63 + chunk\<close> of a 5-bit group, least significant
  group first, with the continuation bit \<^verbatim>\<open>0x20\<close> set on every group but the last; the
  value read is a zig-zag coded signed integer. A well-formed value has at most six groups
  (30 bits), and a well-formed string is a sequence of latitude/longitude pairs of values.
\<close>

fun group_value :: "nat list \<Rightarrow> nat" where
  "group_value [] = 0"
| "group_value (c # cs) = (c - 63) mod 32 + 32 * group_value cs"

fun wf_chars :: "nat list \<Rightarrow> bool" where
  "wf_chars [] = False"
| "wf_chars [c] = (63 \<le> c \<and> c < 95)"
| "wf_chars (c # cs) = (95 \<le> c \<and> c < 127 \<and> wf_chars cs)"

definition wf_value :: "nat list \<Rightarrow> bool" where
  "wf_value cs = (wf_chars cs \<and> length cs \<le> 6)"

definition unzigzag :: "nat \<Rightarrow> int" where
  "unzigzag z = (if even z then int (z div 2) else - int (z div 2) - 1)"

fun cumulative :: "int \<Rightarrow> int \<Rightarrow> (int \<times> int) list \<Rightarrow> coordinate list" where
  "cumulative y0 x0 [] = []"
| "cumulative y0 x0 ((da, dn) # ds) =
     \<lparr>lat = of_int (y0 + da) / 100000, lng = of_int (x0 + dn) / 100000\<rparr> #
     cumulative (y0 + da) (x0 + dn) ds"

definition pair_deltas :: "nat list \<times> nat list \<Rightarrow> int \<times> int" where
  "pair_deltas p = (unzigzag (group_value (fst p)), unzigzag (group_value (snd p)))"

definition flatten :: "(nat list \<times> nat list) list \<Rightarrow> jsstring" where
  "flatten ps = concat (map (\<lambda>p. fst p @ snd p) ps)"

subsection \<open>Errors\<close>

text \<open>
  A rejected promise or a \<^verbatim>\<open>throw\<close> is an \<open>Inl\<close> result. \<open>Error\<close> is an
  \<^verbatim>\<open>Error\<close> object the program itself creates, with its message;
  \<open>RequestFailed\<close> is a rejection of \<^verbatim>\<open>axios.get\<close>, with the HTTP status when a
  response arrived (\<open>None\<close> for a network failure or a timeout); \<open>StoreError\<close> is a
  rejection of \<^verbatim>\<open>dynamodb.send\<close>, with its \<^verbatim>\<open>error.name\<close>.
\<close>

datatype error =
    Error string
  | RequestFailed "nat option"
  | StoreError string

subsection \<open>The country resolver\<close>

text \<open>
  A coordinate handed to the resolver is a JavaScript number: a finite value (taken as a
  rational), \<^verbatim>\<open>NaN\<close> or an infinity (\<^verbatim>\<open>parseFloat\<close> of the test route yields
  those). A comparison with \<^verbatim>\<open>NaN\<close> is false. The decimal bounds of the range table are
  the rationals they denote.
\<close>

datatype number = NaN | NegInf | Fin rat | PosInf

fun ge :: "number \<Rightarrow> rat \<Rightarrow> bool" where
  "ge NaN b = False"
| "ge NegInf b = False"
| "ge (Fin x) b = (b \<le> x)"
| "ge PosInf b = True"

fun le :: "number \<Rightarrow> rat \<Rightarrow> bool" where
  "le NaN b = False"
| "le NegInf b = True"
| "le (Fin x) b = (x \<le> b)"
| "le PosInf b = False"

definition getCountryFromCoordinateRanges :: "number \<Rightarrow> number \<Rightarrow> string" where
  "getCountryFromCoordinateRanges latv lngv =
    (if ge latv 35.8 \<and> le latv 71.2 \<and> ge lngv (-31.3) \<and> le lngv 69.1 then
       (if ge latv 42.3 \<and> le latv 51.1 \<and> ge lngv (-5.1) \<and> le lngv 8.2 then ''France''
        else if ge latv 47.3 \<and> le latv 55.1 \<and> ge lngv 5.9 \<and> le lngv 15.0 then ''Germany''
        else if ge latv 49.9 \<and> le latv 60.9 \<and> ge lngv (-8.2) \<and> le lngv 1.8
          then ''United Kingdom''
        else if ge latv 36.0 \<and> le latv 47.1 \<and> ge lngv 6.6 \<and> le lngv 18.5 then ''Italy''
        else if ge latv 35.9 \<and> le latv 43.8 \<and> ge lngv (-9.5) \<and> le lngv (-6.2) then ''Spain''
        else ''Europe'')
     else if ge latv 25.1 \<and> le latv 49.4 \<and> ge lngv (-125.0) \<and> le lngv (-66.9)
       then ''United States''
     else if ge latv 41.7 \<and> le latv 83.1 \<and> ge lngv (-141.0) \<and> le lngv (-52.6) then ''Canada''
     else if ge latv 25.6 \<and> le latv 26.3 \<and> ge lngv 50.4 \<and> le lngv 50.8 then ''Bahrain''
     else if ge latv (-47.0) \<and> le latv (-10.0) \<and> ge lngv 113.0 \<and> le lngv 154.0
       then ''Australia''
     else ''Other'')"

text \<open>
  The bodies of the two geocoding responses, as far as the program reads them. A missing
  or \<^verbatim>\<open>null\<close> member is \<open>None\<close>.
\<close>

record address_component =
  long_name :: string
  types :: "string list"

record google_result =
  address_components :: "address_component list"

record google_data =
  status :: string
  results :: "google_result list"

record nominatim_address =
  addr_country :: "string option"

record nominatim_data =
  address :: "nominatim_address option"

text \<open>
  What the two services answer is given by the environment, per coordinate. The waiting
  of \<^verbatim>\<open>rateLimitedCall\<close> before each request changes no result; it is modelled on its
  own further down.
\<close>

record geo_env =
  GOOGLE_GEOCODING_API_KEY :: "string option"
  GOOGLE_MAPS_API_KEY :: "string option"
  google_get :: "number \<Rightarrow> number \<Rightarrow> error + google_data"
  nominatim_get :: "number \<Rightarrow> number \<Rightarrow> error + nominatim_data option"

text \<open>Truthiness of an optional string: present and not empty.\<close>

definition truthy :: "'a list option \<Rightarrow> bool" where
  "truthy v = (case v of None \<Rightarrow> False | Some s \<Rightarrow> s \<noteq> [])"

definition getCountryFromGoogle :: "'a geo_env_scheme \<Rightarrow> number \<Rightarrow> number \<Rightarrow> error + string" where
  "getCountryFromGoogle env latv lngv =
    (let GOOGLE_API_KEY =
           (if truthy (GOOGLE_GEOCODING_API_KEY env) then GOOGLE_GEOCODING_API_KEY env
            else GOOGLE_MAPS_API_KEY env)
     in if \<not> truthy GOOGLE_API_KEY then Inl (Error ''Google API key not configured'')
        else case google_get env latv lngv of
          Inl e \<Rightarrow> Inl e
        | Inr data \<Rightarrow>
            (case (if status data = ''OK'' \<and> length (results data) > 0
                   then find (\<lambda>component. ''country'' \<in> set (types component))
                          (address_components (results data ! 0))
                   else None) of
               Some countryComponent \<Rightarrow> Inr (long_name countryComponent)
             | None \<Rightarrow>
                 if status data = ''OVER_QUERY_LIMIT''
                   then Inl (Error ''Google API quota exceeded'')
                 else if status data = ''ZERO_RESULTS'' then Inl (Error ''No country found'')
                 else Inl (Error (''Google Geocoding failed: '' @ status data))))"

definition getCountryFromNominatim :: "'a geo_env_scheme \<Rightarrow> number \<Rightarrow> number \<Rightarrow> error + string" where
  "getCountryFromNominatim env latv lngv =
    (case nominatim_get env latv lngv of
       Inl e \<Rightarrow> Inl e
     | Inr data \<Rightarrow>
         (case data of
            None \<Rightarrow> Inl (Error ''Nominatim: No country found'')
          | Some d \<Rightarrow>
              (case address d of
                 None \<Rightarrow> Inl (Error ''Nominatim: No country found'')
               | Some a \<Rightarrow>
                   (case addr_country a of
                      None \<Rightarrow> Inl (Error ''Nominatim: No country found'')
                    | Some c \<Rightarrow>
                        if c \<noteq> [] then Inr c
                        else Inl (Error ''Nominatim: No country found'')))))"

text \<open>
  \<^verbatim>\<open>country && country !== "Unknown"\<close> on the outcome of a tier; a tier that threw was
  caught and is not usable either.
\<close>

definition usable :: "error + string \<Rightarrow> bool" where
  "usable r = (case r of Inl e \<Rightarrow> False | Inr c \<Rightarrow> c \<noteq> [] \<and> c \<noteq> ''Unknown'')"

text \<open>
  The argument is \<open>None\<close> for a missing (\<^verbatim>\<open>null\<close>, \<^verbatim>\<open>undefined\<close>) value and an
  array of numbers otherwise, as every caller passes one.
\<close>

definition getCountryFromCoordinates ::
    "'a geo_env_scheme \<Rightarrow> number list option \<Rightarrow> error + string" where
  "getCountryFromCoordinates env startLatlng =
    (case startLatlng of
       None \<Rightarrow> Inr ''Unknown''
     | Some pair \<Rightarrow>
         if length pair \<noteq> 2 then Inr ''Unknown''
         else
           let latv = pair ! 0; lngv = pair ! 1;
               fallbackCountry = getCountryFromCoordinateRanges latv lngv;
               second = (let r = getCountryFromNominatim env latv lngv
                         in if usable r then r else Inr fallbackCountry);
               first = getCountryFromGoogle env latv lngv
           in if usable first then first else second)"

subsection \<open>Activities\<close>

text \<open>
  An activity as the provider sends it, with the members the program reads. The record
  holds \<^verbatim>\<open>id\<close>, \<^verbatim>\<open>name\<close>, \<^verbatim>\<open>type\<close> and \<^verbatim>\<open>map\<close> under the names
  \<open>s_id\<close>, \<open>s_name\<close>, \<open>s_type\<close> and \<open>s_map\<close>. The two flags are booleans, a name
  is a string of ASCII characters, and a polyline is a string or missing.
\<close>

record polyline_map =
  summary_polyline :: "jsstring option"
  polyline :: "jsstring option"

record strava_activity =
  s_id :: int
  s_name :: string
  s_type :: string
  trainer :: bool
  manual :: bool
  commute :: "bool option"
  workout_type :: "int option"
  start_latlng :: "number list option"
  s_map :: "polyline_map option"

text \<open>
  An activity as the program builds and stores it: \<^verbatim>\<open>id\<close> is \<open>activity_id\<close> and
  \<^verbatim>\<open>type\<close> is \<open>activity_type\<close>, which is \<open>None\<close> for \<^verbatim>\<open>null\<close>. The members
  \<^verbatim>\<open>distance\<close>, \<^verbatim>\<open>time\<close>, \<^verbatim>\<open>elevation_gain\<close>, \<^verbatim>\<open>average_speed\<close> and
  \<^verbatim>\<open>start_date\<close> are formatted copies of upstream values that no operation below reads;
  they are left out. \<open>athlete_id\<close> and \<open>stored_at\<close> are \<open>None\<close> until they are set.
\<close>

record activity =
  activity_id :: int
  athlete_id :: "string option"
  name :: string
  activity_type :: "string option"
  country :: string
  isRace :: bool
  coordinates :: "coordinate list"
  stored_at :: "nat option"

definition toLowerCase :: "string \<Rightarrow> string" where
  "toLowerCase s =
     map (\<lambda>c. let n = (of_char c :: nat) in if 65 \<le> n \<and> n \<le> 90 then char_of (n + 32) else c) s"

fun includes_sub :: "string \<Rightarrow> string \<Rightarrow> bool" where
  "includes_sub [] sub = (sub = [])"
| "includes_sub (c # cs) sub = (take (length sub) (c # cs) = sub \<or> includes_sub cs sub)"

definition mapStravaType :: "string \<Rightarrow> string option" where
  "mapStravaType stravaType =
     (let typeMap = [(''Run'', Some ''run''), (''Ride'', Some ''ride''), (''VirtualRide'', None),
                     (''VirtualRun'', None), (''Swim'', Some ''swim''), (''Walk'', Some ''run''),
                     (''Hike'', Some ''run''), (''TrailRun'', Some ''run'')]
      in case map_of typeMap stravaType of
           Some (Some t) \<Rightarrow> Some t
         | _ \<Rightarrow> None)"

subsection \<open>The environment and the table\<close>

text \<open>
  The environment fixes what the outside world answers: the pages of the provider's
  activity list, the provider's single activity, the token provider
  (\<^verbatim>\<open>getValidAccessToken\<close>, which works on the table of tokens only), the outcome of
  the \<open>n\<close>-th request \<^verbatim>\<open>dynamodb.send\<close> on the activities table (\<open>None\<close> when it succeeds, the
  \<^verbatim>\<open>error.name\<close> when it is rejected), and the wall clock read when a write command is
  built. A successful batch write stores every item of the command.
\<close>

record env = geo_env +
  strava_activities :: "string \<Rightarrow> nat \<Rightarrow> error + strava_activity list"
  strava_activity_by_id :: "string \<Rightarrow> int \<Rightarrow> error + strava_activity"
  getValidAccessToken :: "string \<Rightarrow> error + string"
  dynamodb_send :: "nat \<Rightarrow> string option"
  date_now :: "nat \<Rightarrow> nat"

datatype command =
    GetCommand int
  | BatchWriteCommand "activity list"
  | QueryCommand string

datatype event =
    Sent command "string option"
  | Sleep nat

text \<open>
  The state the program acts on: the activities table (keyed by \<^verbatim>\<open>id\<close>), the number
  of requests sent so far, and the trace of requests (each with its outcome) and of
  \<^verbatim>\<open>setTimeout\<close> waits in milliseconds.
\<close>

record world =
  table :: "int \<rightharpoonup> activity"
  sends :: nat
  trace :: "event list"

definition put_items :: "activity list \<Rightarrow> (int \<rightharpoonup> activity) \<Rightarrow> (int \<rightharpoonup> activity)" where
  "put_items items t = foldl (\<lambda>t item. t(activity_id item \<mapsto> item)) t items"

definition send :: "env \<Rightarrow> command \<Rightarrow> world \<Rightarrow> (error + unit) \<times> world" where
  "send e cmd w =
     (let outcome = dynamodb_send e (sends w);
          w' = w\<lparr>sends := sends w + 1, trace := trace w @ [Sent cmd outcome]\<rparr>
      in case outcome of
           Some ename \<Rightarrow> (Inl (StoreError ename), w')
         | None \<Rightarrow>
             (Inr (), case cmd of
                        BatchWriteCommand items \<Rightarrow> w'\<lparr>table := put_items items (table w')\<rparr>
                      | _ \<Rightarrow> w'))"

definition sleep :: "nat \<Rightarrow> world \<Rightarrow> world" where
  "sleep ms w = w\<lparr>trace := trace w @ [Sleep ms]\<rparr>"

subsection \<open>The store gateway\<close>

text \<open>
  The first loop of \<^verbatim>\<open>storeActivities\<close>:
  \<^verbatim>\<open>for (let i = 0; i < activities.length; i += batchSize)\<close>.
\<close>

function make_batches :: "activity list \<Rightarrow> nat \<Rightarrow> activity list list" where
  "make_batches activities i =
     (if i < length activities
      then take 25 (drop i activities) # make_batches activities (i + 25)
      else [])"
  by pat_completeness auto
termination
  by (relation "measure (\<lambda>(activities, i). length activities - i)") auto

declare make_batches.simps [simp del]

text \<open>
  The retry loop \<^verbatim>\<open>while (retryCount <= maxRetries)\<close> for one command; \<open>n\<close> is
  \<^verbatim>\<open>activities.length\<close>. It returns what is added to \<^verbatim>\<open>totalStored\<close>.
\<close>

function retry_loop :: "env \<Rightarrow> activity list \<Rightarrow> nat \<Rightarrow> nat \<Rightarrow> world \<Rightarrow> (error + nat) \<times> world" where
  "retry_loop e command n retryCount w =
     (if retryCount \<le> 3 then
        (case send e (BatchWriteCommand command) w of
           (Inr u, w') \<Rightarrow>
             (let delayMs = (if n > 500 then 1000 else 500)
              in (Inr (length command), sleep delayMs w'))
         | (Inl err, w') \<Rightarrow>
             if err = StoreError ''ProvisionedThroughputExceededException'' \<and> retryCount < 3
             then (let retryCount' = retryCount + 1;
                       backoffDelay = 2 ^ retryCount' * 1000
                   in retry_loop e command n retryCount' (sleep backoffDelay w'))
             else (Inl err, w'))
      else (Inr 0, w))"
  by pat_completeness auto
termination
  by (relation "measure (\<lambda>(e, command, n, retryCount, w). 3 - retryCount)") auto

declare retry_loop.simps [simp del]

text \<open>The loop over the batches; a failure leaves it at once.\<close>

fun store_batches :: "env \<Rightarrow> nat \<Rightarrow> activity list list \<Rightarrow> nat \<Rightarrow> world \<Rightarrow> (error + nat) \<times> world" where
  "store_batches e n [] totalStored w = (Inr totalStored, w)"
| "store_batches e n (batch # batches) totalStored w =
     (let command = map (\<lambda>a. a\<lparr>stored_at := Some (date_now e (sends w))\<rparr>) batch
      in case retry_loop e command n 0 w of
           (Inl err, w') \<Rightarrow> (Inl err, w')
         | (Inr k, w') \<Rightarrow> store_batches e n batches (totalStored + k) w')"

definition storeActivities :: "env \<Rightarrow> activity list \<Rightarrow> world \<Rightarrow> (error + nat) \<times> world" where
  "storeActivities e activities w =
     store_batches e (length activities) (make_batches activities 0) 0 w"

definition getActivity :: "env \<Rightarrow> int \<Rightarrow> world \<Rightarrow> (error + activity option) \<times> world" where
  "getActivity e activityId w =
     (case send e (GetCommand activityId) w of
        (Inr u, w') \<Rightarrow> (Inr (table w activityId), w')
      | (Inl err, w') \<Rightarrow> (Inl err, w'))"

definition activityExists :: "env \<Rightarrow> int \<Rightarrow> world \<Rightarrow> (error + bool) \<times> world" where
  "activityExists e activityId w =
     (case send e (GetCommand activityId) w of
        (Inr u, w') \<Rightarrow> (Inr (table w activityId \<noteq> None), w')
      | (Inl err, w') \<Rightarrow> (Inr False, w'))"

text \<open>
  \<^verbatim>\<open>getActivityCount\<close> sends one query and returns 0 when it fails. Its callers only
  print or report the number, so the model keeps the request and not the count.
\<close>

definition getActivityCount :: "env \<Rightarrow> string \<Rightarrow> world \<Rightarrow> world" where
  "getActivityCount e athleteId w = snd (send e (QueryCommand athleteId) w)"

subsection \<open>Fetching and normalizing\<close>

text \<open>The body of the loop over one page of \<^verbatim>\<open>fetchStravaActivities\<close>, for one activity:
  \<open>Inr None\<close> is \<^verbatim>\<open>continue\<close>.\<close>

definition processActivity :: "env \<Rightarrow> strava_activity \<Rightarrow> error + activity option" where
  "processActivity e activity =
    (if trainer activity \<or> manual activity \<or>
        (commute activity = Some False \<and> trainer activity) \<or>
        s_type activity = ''VirtualRide'' \<or> s_type activity = ''VirtualRun'' \<or>
        includes_sub (toLowerCase (s_name activity)) ''zwift'' \<or>
        includes_sub (toLowerCase (s_name activity)) ''peloton'' \<or>
        includes_sub (toLowerCase (s_name activity)) ''virtual'' \<or>
        includes_sub (toLowerCase (s_name activity)) ''indoor'' \<or>
        includes_sub (toLowerCase (s_name activity)) ''trainer'' \<or>
        includes_sub (toLowerCase (s_name activity)) ''treadmill'' \<or>
        (case start_latlng activity of None \<Rightarrow> True | Some p \<Rightarrow> length p = 0)
     then Inr None
     else
       let activityType = mapStravaType (s_type activity) in
       if activityType \<notin> set [Some ''run'', Some ''ride'', Some ''swim''] then Inr None
       else
         case s_map activity of
           None \<Rightarrow> Inr None
         | Some m \<Rightarrow>
             if \<not> truthy (summary_polyline m) \<and> \<not> truthy (polyline m) then Inr None
             else
               let coords = (case summary_polyline m of
                               None \<Rightarrow> []
                             | Some s \<Rightarrow> if s \<noteq> [] then decodePolyline s else [])
               in if length coords < 3 then Inr None
                  else
                    let firstCoordinate = coords ! 0;
                        countryDetectionPoint =
                          [Fin (lat firstCoordinate), Fin (lng firstCoordinate)]
                    in case getCountryFromCoordinates e (Some countryDetectionPoint) of
                         Inl err \<Rightarrow> Inl err
                       | Inr c \<Rightarrow>
                           Inr (Some \<lparr>activity_id = s_id activity, athlete_id = None,
                             name = s_name activity, activity_type = activityType, country = c,
                             isRace = (workout_type activity = Some 1 \<or>
                               includes_sub (toLowerCase (s_name activity)) ''race''),
                             coordinates = take 20 coords, stored_at = None\<rparr>))"

fun process_page :: "env \<Rightarrow> strava_activity list \<Rightarrow> activity list \<Rightarrow> error + activity list" where
  "process_page e [] activities = Inr activities"
| "process_page e (activity # pageActivities) activities =
     (case processActivity e activity of
        Inl err \<Rightarrow> Inl err
      | Inr None \<Rightarrow> process_page e pageActivities activities
      | Inr (Some processedActivity) \<Rightarrow>
          process_page e pageActivities (activities @ [processedActivity]))"

text \<open>
  The loop \<^verbatim>\<open>while (true)\<close> over the pages. It ends at the first empty page or at a
  failed request; against a provider that never sends an empty page it does not return,
  which is the value \<open>None\<close>.
\<close>

partial_function (option) fetch_pages ::
    "env \<Rightarrow> string \<Rightarrow> nat \<Rightarrow> activity list \<Rightarrow> (error + activity list) option" where
  "fetch_pages e accessToken page activities =
     (case strava_activities e accessToken page of
        Inl err \<Rightarrow> Some (Inl err)
      | Inr pageActivities \<Rightarrow>
          if length pageActivities = 0 then Some (Inr activities)
          else (case process_page e pageActivities activities of
                  Inl err \<Rightarrow> Some (Inl err)
                | Inr activities' \<Rightarrow> fetch_pages e accessToken (page + 1) activities'))"

declare fetch_pages.simps [code]

definition fetchStravaActivities :: "env \<Rightarrow> string \<Rightarrow> (error + activity list) option" where
  "fetchStravaActivities e accessToken = fetch_pages e accessToken 1 []"

subsection \<open>The background sync\<close>

text \<open>
  The loop of the incremental mode over the fetched activities, with
  \<^verbatim>\<open>newActivitiesToStore\<close> and \<^verbatim>\<open>skippedCount\<close>.
\<close>

fun check_duplicates ::
    "env \<Rightarrow> string \<Rightarrow> activity list \<Rightarrow> activity list \<Rightarrow> nat \<Rightarrow> world
      \<Rightarrow> (error + activity list \<times> nat) \<times> world" where
  "check_duplicates e athlete [] newActivitiesToStore skippedCount w =
     (Inr (newActivitiesToStore, skippedCount), w)"
| "check_duplicates e athlete (activity # rest) newActivitiesToStore skippedCount w =
     (case activityExists e (activity_id activity) w of
        (Inl err, w') \<Rightarrow> (Inl err, w')
      | (Inr exists, w') \<Rightarrow>
          if \<not> exists
          then check_duplicates e athlete rest
                 (newActivitiesToStore @ [activity\<lparr>athlete_id := Some athlete\<rparr>]) skippedCount w'
          else check_duplicates e athlete rest newActivitiesToStore (skippedCount + 1) w')"

text \<open>
  A run ends in one of the two log lines: complete, with \<^verbatim>\<open>storedCount\<close> and
  \<^verbatim>\<open>skippedCount\<close>, or failed, with the error the outer \<^verbatim>\<open>catch\<close> received.
\<close>

datatype sync_outcome = Completed nat nat | Failed error

text \<open>\<^verbatim>\<open>performBackgroundSync\<close> from the point where the fetch has returned.\<close>

definition persist ::
    "env \<Rightarrow> string \<Rightarrow> bool \<Rightarrow> activity list \<Rightarrow> world \<Rightarrow> sync_outcome \<times> world" where
  "persist e athlete full_sync newActivities w =
    (if full_sync then
       (let activitiesWithAthleteId = map (\<lambda>a. a\<lparr>athlete_id := Some athlete\<rparr>) newActivities
        in case storeActivities e activitiesWithAthleteId w of
             (Inl err, w') \<Rightarrow> (Failed err, w')
           | (Inr storedCount, w') \<Rightarrow> (Completed storedCount 0, getActivityCount e athlete w'))
     else
       (case check_duplicates e athlete newActivities [] 0 w of
          (Inl err, w') \<Rightarrow> (Failed err, w')
        | (Inr (newActivitiesToStore, skippedCount), w') \<Rightarrow>
            if length newActivitiesToStore > 0 then
              (case storeActivities e newActivitiesToStore w' of
                 (Inl err, w'') \<Rightarrow> (Failed err, w'')
               | (Inr storedCount, w'') \<Rightarrow>
                   (Completed storedCount skippedCount, getActivityCount e athlete w''))
            else (Completed 0 skippedCount, getActivityCount e athlete w')))"

definition performBackgroundSync ::
    "env \<Rightarrow> string \<Rightarrow> string \<Rightarrow> bool \<Rightarrow> world \<Rightarrow> (sync_outcome \<times> world) option" where
  "performBackgroundSync e athlete accessToken full_sync w =
    (case fetchStravaActivities e accessToken of
       None \<Rightarrow> None
     | Some (Inl err) \<Rightarrow> Some (Failed err, w)
     | Some (Inr newActivities) \<Rightarrow> Some (persist e athlete full_sync newActivities w))"

text \<open>
  What the loop of the incremental mode takes for new: the activity whose lookup, request
  number \<open>n\<close>, failed, or whose identifier the table does not hold.
\<close>

definition treated_as_new :: "env \<Rightarrow> (int \<rightharpoonup> activity) \<Rightarrow> nat \<times> activity \<Rightarrow> bool" where
  "treated_as_new e t = (\<lambda>(n, a). dynamodb_send e n \<noteq> None \<or> t (activity_id a) = None)"

subsection \<open>The detail route\<close>

text \<open>
  The handler of \<^verbatim>\<open>GET /activities/:id\<close>. The request carries the identifier of the
  path and the \<^verbatim>\<open>athlete_id\<close> of the query string, if any. A response is either
  \<^verbatim>\<open>res.json(activity)\<close> or \<^verbatim>\<open>res.status(n).json({error})\<close>.
\<close>

record request =
  params_id :: int
  query_athlete_id :: "string option"

datatype response = Json activity | Status nat string

text \<open>The \<^verbatim>\<open>catch\<close> block of the handler.\<close>

definition on_error :: "error \<Rightarrow> response" where
  "on_error err =
     (if err = RequestFailed (Some 401) then Status 401 ''Strava token expired''
      else Status 500 ''Failed to fetch activity details'')"

definition activity_details :: "env \<Rightarrow> request \<Rightarrow> world \<Rightarrow> response \<times> world" where
  "activity_details e req w =
    (case query_athlete_id req of
       None \<Rightarrow> (Status 400 ''athlete_id is required'', w)
     | Some athlete \<Rightarrow>
         if athlete = [] then (Status 400 ''athlete_id is required'', w)
         else
           case getActivity e (params_id req) w of
             (Inl err, w1) \<Rightarrow> (on_error err, w1)
           | (Inr found, w1) \<Rightarrow>
               (case (case found of
                        None \<Rightarrow> None
                      | Some a \<Rightarrow> if length (coordinates a) > 20 then Some a else None) of
                  Some a \<Rightarrow> (Json a, w1)
                | None \<Rightarrow>
                    (case getValidAccessToken e athlete of
                       Inl err \<Rightarrow> (on_error err, w1)
                     | Inr accessToken \<Rightarrow>
                         (case strava_activity_by_id e accessToken (params_id req) of
                            Inl err \<Rightarrow> (on_error err, w1)
                          | Inr stravaActivity \<Rightarrow>
                              let full = (case s_map stravaActivity of
                                            None \<Rightarrow> None
                                          | Some m \<Rightarrow> polyline m)
                              in if trainer stravaActivity \<or> manual stravaActivity \<or>
                                    s_type stravaActivity = ''VirtualRide'' \<or>
                                    s_type stravaActivity = ''VirtualRun'' \<or>
                                    start_latlng stravaActivity = None \<or> \<not> truthy full
                                 then (Status 404 ''Activity not found or is virtual'', w1)
                                 else
                                   let coords = decodePolyline (the full) in
                                   if length coords < 3
                                   then (Status 404 ''Activity has insufficient GPS data'', w1)
                                   else
                                     let firstCoordinate = coords ! 0;
                                         countryDetectionPoint =
                                           [Fin (lat firstCoordinate), Fin (lng firstCoordinate)]
                                     in case getCountryFromCoordinates e (Some countryDetectionPoint) of
                                          Inl err \<Rightarrow> (on_error err, w1)
                                        | Inr c \<Rightarrow>
                                            let detailedActivity =
                                                  \<lparr>activity_id = s_id stravaActivity,
                                                   athlete_id = Some athlete,
                                                   name = s_name stravaActivity,
                                                   activity_type = mapStravaType (s_type stravaActivity),
                                                   country = c,
                                                   isRace = (workout_type stravaActivity = Some 1 \<or>
                                                     includes_sub (toLowerCase (s_name stravaActivity)) ''race''),
                                                   coordinates = coords, stored_at = None\<rparr>
                                            in (Json detailedActivity,
                                                snd (storeActivities e [detailedActivity] w1))))))"

subsection \<open>The rate limiter\<close>

text \<open>
  The two tiers and the interval each is called with
  (\<^verbatim>\<open>rateLimitedCall("google", 100)\<close>, \<^verbatim>\<open>rateLimitedCall("nominatim", 1100)\<close>).
\<close>

datatype api = google | nominatim

definition interval :: "api \<Rightarrow> int" where
  "interval apiName = (case apiName of google \<Rightarrow> 100 | nominatim \<Rightarrow> 1100)"

text \<open>
  The state of the limiter: the wall clock \<^verbatim>\<open>Date.now()\<close> in milliseconds, the module
  variable \<^verbatim>\<open>lastApiCall\<close>, and the log of the calls let through (the tier and the time
  at which \<open>rateLimitedCall\<close> returned and the request was issued).
\<close>

record limiter =
  clock :: int
  lastApiCall :: "api \<Rightarrow> int"
  started :: "(api \<times> int) list"

text \<open>
  JavaScript runs a function without interruption up to an \<^verbatim>\<open>await\<close>. So
  \<open>rateLimitedCall\<close> is two uninterrupted pieces: from its start to the \<^verbatim>\<open>await\<close> of
  the timer (or to its end when there is nothing to wait for), and from the firing of the
  timer to its end. A call suspended at the \<^verbatim>\<open>await\<close> is \<open>Pending\<close>, with the time at
  which its timer is due. The second piece does not look at that time again: it stamps
  whatever \<^verbatim>\<open>Date.now()\<close> reads when it runs.
\<close>

datatype pending = Pending api int

definition stamp :: "api \<Rightarrow> 'a limiter_scheme \<Rightarrow> 'a limiter_scheme" where
  "stamp apiName s =
     s\<lparr>lastApiCall := (lastApiCall s)(apiName := clock s),
       started := started s @ [(apiName, clock s)]\<rparr>"

definition rateLimitedCall_begin ::
    "api \<Rightarrow> int \<Rightarrow> 'a limiter_scheme \<Rightarrow> pending option \<times> 'a limiter_scheme" where
  "rateLimitedCall_begin apiName minIntervalMs s =
     (let now = clock s;
          timeSinceLastCall = now - lastApiCall s apiName
      in if timeSinceLastCall < minIntervalMs
         then (let waitTime = minIntervalMs - timeSinceLastCall
               in (Some (Pending apiName (now + waitTime)), s))
         else (None, stamp apiName s))"

definition rateLimitedCall_resume :: "pending \<Rightarrow> 'a limiter_scheme \<Rightarrow> 'a limiter_scheme" where
  "rateLimitedCall_resume p s = (case p of Pending apiName due \<Rightarrow> stamp apiName s)"

text \<open>
  A call that the caller awaits, with nothing else running in between. When the timer's
  callback runs, \<^verbatim>\<open>Date.now()\<close> reads \<open>drift\<close> milliseconds past the time the
  timer was due. \<^verbatim>\<open>setTimeout\<close> does not count on the \<^verbatim>\<open>Date.now()\<close> clock, so
  \<open>drift\<close> is any integer: positive when the callback is late, negative when it runs
  before \<^verbatim>\<open>Date.now()\<close> has reached the due time.
\<close>

definition rateLimitedCall :: "api \<Rightarrow> int \<Rightarrow> int \<Rightarrow> 'a limiter_scheme \<Rightarrow> 'a limiter_scheme" where
  "rateLimitedCall apiName minIntervalMs drift s =
     (case rateLimitedCall_begin apiName minIntervalMs s of
        (None, s') \<Rightarrow> s'
      | (Some (Pending a due), s') \<Rightarrow>
          rateLimitedCall_resume (Pending a due) (s'\<lparr>clock := due + drift\<rparr>))"

text \<open>
  Calls made one after the other, each awaited before the next begins, as one sync run
  makes them: before each call \<open>idle\<close> milliseconds pass.
\<close>

fun sequential :: "(nat \<times> api \<times> int) list \<Rightarrow> 'a limiter_scheme \<Rightarrow> 'a limiter_scheme" where
  "sequential [] s = s"
| "sequential ((idle, apiName, drift) # calls) s =
     sequential calls
       (rateLimitedCall apiName (interval apiName) drift (s\<lparr>clock := clock s + int idle\<rparr>))"

text \<open>
  Several callers at once, as two sync runs or a sync run and a detail request are: time
  passes, caller \<open>i\<close> begins a call, or the timer of caller \<open>i\<close> fires and the caller
  runs on from its \<^verbatim>\<open>await\<close> (which does nothing when caller \<open>i\<close> is not waiting). The
  schedule says when a timer fires; the code does not compare the clock with the due time.
\<close>

datatype action = Tick nat | Call nat api | Wake nat

record scheduler = limiter +
  tasks :: "nat \<rightharpoonup> pending"

fun step :: "action \<Rightarrow> scheduler \<Rightarrow> scheduler" where
  "step (Tick d) s = s\<lparr>clock := clock s + int d\<rparr>"
| "step (Call i apiName) s =
     (case rateLimitedCall_begin apiName (interval apiName) s of
        (None, s') \<Rightarrow> s'
      | (Some p, s') \<Rightarrow> s'\<lparr>tasks := (tasks s')(i \<mapsto> p)\<rparr>)"
| "step (Wake i) s =
     (case tasks s i of
        None \<Rightarrow> s
      | Some (Pending apiName due) \<Rightarrow>
          (rateLimitedCall_resume (Pending apiName due) s)\<lparr>tasks := (tasks s)(i := None)\<rparr>)"

definition run :: "action list \<Rightarrow> scheduler \<Rightarrow> scheduler" where
  "run schedule s = fold step schedule s"

text \<open>
  The times at which the calls to one tier were let through, and what the limiter is for:
  each is at least the interval after the one before.
\<close>

definition starts_of :: "api \<Rightarrow> (api \<times> int) list \<Rightarrow> int list" where
  "starts_of apiName calls = map snd (filter (\<lambda>(a, t). a = apiName) calls)"

fun spaced :: "int \<Rightarrow> int list \<Rightarrow> bool" where
  "spaced m [] = True"
| "spaced m [t] = True"
| "spaced m (t # t' # ts) = (t + m \<le> t' \<and> spaced m (t' # ts))"

text \<open>
  What holds between calls that follow one another: no tier was last called in the future,
  the calls let through so far are spaced, and none is later than the tier's
  \<^verbatim>\<open>lastApiCall\<close>.
\<close>

definition in_order :: "'a limiter_scheme \<Rightarrow> bool" where
  "in_order s =
     ((\<forall>a. lastApiCall s a \<le> clock s) \<and>
      (\<forall>a. spaced (interval a) (starts_of a (started s))) \<and>
      (\<forall>a. \<forall>t \<in> set (starts_of a (started s)). t \<le> lastApiCall s a))"

subsection \<open>Reading a trace\<close>

text \<open>
  The batches written (the commands of the successful batch writes, in order) and the
  identifiers looked up (the keys of the point lookups, in order, successful or not).
\<close>

fun writes :: "event list \<Rightarrow> activity list list" where
  "writes [] = []"
| "writes (Sent (BatchWriteCommand items) None # tr) = items # writes tr"
| "writes (ev # tr) = writes tr"

fun lookups :: "event list \<Rightarrow> int list" where
  "lookups [] = []"
| "lookups (Sent (GetCommand i) outcome # tr) = i # lookups tr"
| "lookups (ev # tr) = lookups tr"

text \<open>An item as written is the activity with its \<^verbatim>\<open>stored_at\<close> set.\<close>

definition stamped :: "activity \<Rightarrow> activity \<Rightarrow> bool" where
  "stamped item a = (\<exists>t. item = a\<lparr>stored_at := Some t\<rparr>)"

abbreviation throughput :: string where
  "throughput \<equiv> ''ProvisionedThroughputExceededException''"

subsection \<open>Sample data\<close>

text \<open>
  A stored activity, an environment in which no upstream or geocoding request succeeds and
  the requests to the table have the given outcomes, and the empty table; the concrete
  runs below are built from them.
\<close>

definition sample_activity :: "int \<Rightarrow> activity" where
  "sample_activity i = \<lparr>activity_id = i, athlete_id = Some ''42'', name = ''Morning Run'',
     activity_type = Some ''run'', country = ''France'', isRace = False, coordinates = [],
     stored_at = None\<rparr>"

definition sample_env :: "(nat \<Rightarrow> string option) \<Rightarrow> env" where
  "sample_env outcomes =
     \<lparr>GOOGLE_GEOCODING_API_KEY = None, GOOGLE_MAPS_API_KEY = None,
      google_get = (\<lambda>a b. Inl (RequestFailed None)),
      nominatim_get = (\<lambda>a b. Inl (RequestFailed None)),
      strava_activities = (\<lambda>accessToken page. Inr []),
      strava_activity_by_id = (\<lambda>accessToken i. Inl (RequestFailed (Some 404))),
      getValidAccessToken = (\<lambda>athlete. Inr ''token''),
      dynamodb_send = outcomes, date_now = (\<lambda>n. 1000 * n)\<rparr>"

definition empty_world :: world where
  "empty_world = \<lparr>table = Map.empty, sends = 0, trace = []\<rparr>"

text \<open>
  An upstream activity with the reference polyline, the activity the list route makes of
  it, an environment whose provider has one page of activities, an environment whose
  provider serves every single activity with the given type, and two tables.
\<close>

definition sample_raw :: "int \<Rightarrow> string \<Rightarrow> strava_activity" where
  "sample_raw i t =
     \<lparr>s_id = i, s_name = ''Morning Run'', s_type = t, trainer = False, manual = False,
      commute = Some False, workout_type = None,
      start_latlng = Some [Fin 38.5, Fin (-120.2)],
      s_map = Some \<lparr>summary_polyline = Some (code_units ''_p~iF~ps|U_ulLnnqC_mqNvxq`@''),
                    polyline = Some (code_units ''_p~iF~ps|U_ulLnnqC_mqNvxq`@'')\<rparr>\<rparr>"

definition sample_processed :: "int \<Rightarrow> activity" where
  "sample_processed i =
     \<lparr>activity_id = i, athlete_id = None, name = ''Morning Run'', activity_type = Some ''run'',
      country = ''United States'', isRace = False,
      coordinates = [\<lparr>lat = 38.5, lng = -120.2\<rparr>, \<lparr>lat = 40.7, lng = -120.95\<rparr>,
                     \<lparr>lat = 43.252, lng = -126.453\<rparr>],
      stored_at = None\<rparr>"

definition upstream_env :: "(nat \<Rightarrow> string option) \<Rightarrow> strava_activity list \<Rightarrow> env" where
  "upstream_env outcomes page1 =
     (sample_env outcomes)
       \<lparr>strava_activities := (\<lambda>accessToken page. if page = 1 then Inr page1 else Inr [])\<rparr>"

definition detail_env :: "(nat \<Rightarrow> string option) \<Rightarrow> string \<Rightarrow> env" where
  "detail_env outcomes t =
     (sample_env outcomes)
       \<lparr>strava_activity_by_id := (\<lambda>accessToken i. Inr (sample_raw i t))\<rparr>"

definition one_stored :: world where
  "one_stored = \<lparr>table = [1 \<mapsto> sample_activity 1], sends = 0, trace = []\<rparr>"

definition two_stored :: world where
  "two_stored = \<lparr>table = [1 \<mapsto> sample_activity 1, 5 \<mapsto> sample_activity 5], sends = 0,
     trace = []\<rparr>"

text \<open>
  A request for activity 7 by athlete 42, and a table that holds activity 7 with 21
  coordinates.
\<close>

definition detail_request :: request where
  "detail_request = \<lparr>params_id = 7, query_athlete_id = Some ''42''\<rparr>"

definition detailed_stored :: world where
  "detailed_stored =
     \<lparr>table = [7 \<mapsto> (sample_activity 7)
                \<lparr>coordinates := replicate 21 \<lparr>lat = 38.5, lng = -120.2\<rparr>\<rparr>],
      sends = 0, trace = []\<rparr>"

text \<open>The limiter when the process starts.\<close>

definition process_start :: scheduler where
  "process_start = \<lparr>clock = 1700000000000, lastApiCall = (\<lambda>a. 0), started = [], tasks = Map.empty\<rparr>"

section \<open>Properties\<close>

subsection \<open>The 32-bit operators on small non-negative values\<close>

lemma toInt32_id: "- (2 ^ 31) \<le> x \<Longrightarrow> x < 2 ^ 31 \<Longrightarrow> toInt32 x = x"
  unfolding toInt32_def by (rule signed_take_bit_int_eq_self)

lemma toInt32_nonneg:
  assumes "0 \<le> x" "x < 2 ^ 30"
  shows "toInt32 x = x"
proof (rule toInt32_id)
  show "- (2 ^ 31) \<le> x" by (rule order_trans[OF _ assms(1)]) simp
  show "x < 2 ^ 31" by (rule less_trans[OF assms(2)]) simp
qed

lemma and31: "(b::int) AND 31 = b mod 32"
proof -
  have "b AND mask 5 = b mod 2 ^ 5"
    by (simp add: take_bit_eq_mask[symmetric] take_bit_eq_mod)
  then show ?thesis by (simp add: mask_eq_exp_minus_1)
qed

lemma and1: "(b::int) AND 1 = b mod 2"
  by (simp add: and_one_eq)

lemma or_disjoint:
  fixes r x :: int
  assumes "0 \<le> r" "r < 2 ^ s"
  shows "r OR push_bit s x = r + x * 2 ^ s"
proof -
  have "r = take_bit s r" using assms by (simp add: take_bit_int_eq_self)
  then have h: "\<And>n. bit r n \<Longrightarrow> n < s"
    by (metis bit_take_bit_iff)
  have "r AND push_bit s x = 0"
  proof (rule bit_eqI)
    fix n
    show "bit (r AND push_bit s x) n = bit (0::int) n"
      using h[of n] by (auto simp: bit_and_iff bit_push_bit_iff)
  qed
  then show ?thesis by (simp add: disjunctive_add_eq_or push_bit_eq_mult)
qed


lemma byte_and:
  assumes "63 \<le> c" "c < 127"
  shows "js_and (js_minus (Some (int c)) 63) 0x1f = int ((c - 63) mod 32)"
proof -
  have e: "int c - 63 = int (c - 63)" using assms by simp
  have t: "toInt32 (int (c - 63)) = int (c - 63)" using assms by (intro toInt32_id) auto
  have t31: "toInt32 31 = 31" by (intro toInt32_id) auto
  have "js_and (js_minus (Some (int c)) 63) 0x1f = int (c - 63) AND 31"
    unfolding js_and_def js_minus_def option.map option.case e t t31 ..
  also have "\<dots> = int (c - 63) mod 32" by (rule and31)
  also have "\<dots> = int ((c - 63) mod 32)" by (simp add: zmod_int)
  finally show ?thesis .
qed

lemma chunk_shl:
  fixes x :: int
  assumes "0 \<le> x" "x < 32" "s \<le> 25"
  shows "js_shl x s = push_bit s x" "0 \<le> push_bit s x" "push_bit s x < 2 ^ 30"
proof -
  have p: "(2::int) ^ s \<le> 2 ^ 25" using assms(3) by (intro power_increasing) auto
  have "x * 2 ^ s \<le> 31 * 2 ^ 25" using assms p by (intro mult_mono) auto
  then show lt: "push_bit s x < 2 ^ 30" by (simp add: push_bit_eq_mult)
  show ge: "0 \<le> push_bit s x" using assms(1) by (simp add: push_bit_eq_mult)
  have tx: "toInt32 x = x" using assms by (intro toInt32_id) auto
  have m: "s mod 32 = s" using assms(3) by simp
  have "toInt32 (push_bit s x) = push_bit s x" using ge lt by (rule toInt32_nonneg)
  then show "js_shl x s = push_bit s x" unfolding js_shl_def tx m .
qed

lemma chunk_or:
  fixes r :: int
  assumes "0 \<le> r" "r < 2 ^ s" "s \<le> 25" "63 \<le> c" "c < 127"
  shows "js_or r (js_shl (js_and (js_minus (Some (int c)) 63) 0x1f) s) = r + int ((c - 63) mod 32) * 2 ^ s"
proof -
  let ?x = "int ((c - 63) mod 32)"
  have x: "0 \<le> ?x" "?x < 32" by auto
  note sh = chunk_shl[OF x assms(3)]
  have p: "(2::int) ^ s \<le> 2 ^ 25" using assms(3) by (intro power_increasing) auto
  have tr: "toInt32 r = r" using assms(1,2) p by (intro toInt32_id) auto
  have tp: "toInt32 (push_bit s ?x) = push_bit s ?x" using sh(2,3) by (rule toInt32_nonneg)
  have "js_or r (js_shl (js_and (js_minus (Some (int c)) 63) 0x1f) s) = r OR push_bit s ?x"
    unfolding byte_and[OF assms(4,5)] sh(1) js_or_def tr tp ..
  also have "\<dots> = r + ?x * 2 ^ s" by (rule or_disjoint[OF assms(1,2)])
  finally show ?thesis .
qed

lemma zigzag_unzigzag:
  assumes "z < 2 ^ 30"
  shows "zigzag (int z) = unzigzag z"
proof -
  have z: "toInt32 (int z) = int z" using assms by (intro toInt32_nonneg) auto
  have one: "toInt32 1 = 1" by (intro toInt32_nonneg) auto
  have d: "toInt32 (int z div 2) = int z div 2" using assms by (intro toInt32_nonneg) auto
  have a: "js_and (Some (int z)) 1 = int z mod 2"
    unfolding js_and_def option.case z one by (rule and1)
  have s: "js_sar (int z) 1 = int z div 2"
    unfolding js_sar_def z by (simp add: drop_bit_eq_div)
  have n: "js_not (int z div 2) = - (int z div 2) - 1"
    unfolding js_not_def d by (simp add: not_int_def)
  show ?thesis
  proof (cases "even z")
    case True
    then have "int z mod 2 = 0" by presburger
    then show ?thesis using True unfolding zigzag_def a s unzigzag_def by (simp add: zdiv_int)
  next
    case False
    then have "int z mod 2 = 1" by presburger
    then show ?thesis using False unfolding zigzag_def a s n unzigzag_def by (simp add: zdiv_int)
  qed
qed

subsection \<open>Decoding well-formed input\<close>

lemma charCodeAt_mid: "charCodeAt (pre @ c # rest) (length pre) = Some (int c)"
  by (simp add: charCodeAt_def)

lemma decodeValue_step:
  assumes "0 \<le> r" "r < 2 ^ s" "s \<le> 25" "63 \<le> c" "c < 127"
  shows "decodeValue (pre @ c # rest) (length pre) r s =
    (if 95 \<le> c then decodeValue (pre @ c # rest) (length pre + 1) (r + int ((c - 63) mod 32) * 2 ^ s) (s + 5)
     else (r + int ((c - 63) mod 32) * 2 ^ s, length pre + 1))"
proof -
  have g: "js_ge (js_minus (Some (int c)) 63) 0x20 = (95 \<le> c)"
    by (auto simp: js_ge_def js_minus_def)
  show ?thesis
    apply (subst decodeValue.simps)
    unfolding Let_def charCodeAt_mid chunk_or[OF assms] g ..
qed

lemma chunk_bound:
  fixes r :: int
  assumes "0 \<le> r" "r < 2 ^ s"
  shows "0 \<le> r + int (x mod 32) * 2 ^ s" "r + int (x mod 32) * 2 ^ s < 2 ^ (s + 5)"
proof -
  show "0 \<le> r + int (x mod 32) * 2 ^ s" using assms(1) by simp
  have "int (x mod 32) \<le> 31" by simp
  then have "int (x mod 32) * 2 ^ s \<le> 31 * 2 ^ s" by (intro mult_right_mono) auto
  then have "r + int (x mod 32) * 2 ^ s < 2 ^ s + 31 * 2 ^ s" using assms(2) by linarith
  then show "r + int (x mod 32) * 2 ^ s < 2 ^ (s + 5)" by (simp add: power_add)
qed

lemma decodeValue_group:
  assumes "wf_chars g" "0 \<le> r" "r < 2 ^ s" "s + 5 * length g \<le> 30"
  shows "decodeValue (pre @ g @ rest) (length pre) r s =
    (r + int (group_value g) * 2 ^ s, length pre + length g)"
  using assms
proof (induction g arbitrary: pre r s rule: wf_chars.induct)
  case 1
  then show ?case by simp
next
  case (2 c)
  then have c: "63 \<le> c" "c < 127" "\<not> 95 \<le> c" "s \<le> 25" by auto
  show ?case
    using decodeValue_step[OF "2.prems"(2,3) c(4) c(1,2), of pre rest] c(3) by simp
next
  case (3 c c' cs)
  then have c: "63 \<le> c" "c < 127" "95 \<le> c" "s \<le> 25" and w: "wf_chars (c' # cs)" by auto
  let ?r = "r + int ((c - 63) mod 32) * 2 ^ s"
  note b = chunk_bound[OF "3.prems"(2,3), of "c - 63"]
  have l: "s + 5 + 5 * length (c' # cs) \<le> 30" using "3.prems"(4) by simp
  have "decodeValue ((pre @ [c]) @ (c' # cs) @ rest) (length (pre @ [c])) ?r (s + 5) =
    (?r + int (group_value (c' # cs)) * 2 ^ (s + 5), length (pre @ [c]) + length (c' # cs))"
    by (rule "3.IH"[OF w b l])
  then show ?case
    using decodeValue_step[OF "3.prems"(2,3) c(4) c(1,2), of pre "c' # cs @ rest"] c(3)
    by (simp add: power_add algebra_simps)
qed

lemma group_value_bound: "group_value g < 32 ^ length g"
proof (induction g)
  case Nil
  show ?case by simp
next
  case (Cons c cs)
  have "(c - 63) mod 32 < 32" by simp
  then have "(c - 63) mod 32 + 32 * group_value cs < 32 + 32 * group_value cs" by linarith
  also have "\<dots> = 32 * Suc (group_value cs)" by simp
  also have "\<dots> \<le> 32 * 32 ^ length cs" using Cons.IH by (intro mult_le_mono2) simp
  finally show ?case by simp
qed

lemma decodeValue_wf:
  assumes "wf_value g"
  shows "decodeValue (pre @ g @ rest) (length pre) 0 0 = (int (group_value g), length pre + length g)"
    and "zigzag (int (group_value g)) = unzigzag (group_value g)"
proof -
  have w: "wf_chars g" and l: "length g \<le> 6" using assms by (auto simp: wf_value_def)
  have "decodeValue (pre @ g @ rest) (length pre) 0 0 =
    (0 + int (group_value g) * 2 ^ 0, length pre + length g)"
    using l by (intro decodeValue_group[OF w]) auto
  then show "decodeValue (pre @ g @ rest) (length pre) 0 0 = (int (group_value g), length pre + length g)"
    by simp
  have "(32::nat) ^ length g \<le> 32 ^ 6" using l by (intro power_increasing) auto
  then have "group_value g < 2 ^ 30" using group_value_bound[of g] by simp
  then show "zigzag (int (group_value g)) = unzigzag (group_value g)" by (rule zigzag_unzigzag)
qed

lemma wf_value_nonempty: "wf_value g \<Longrightarrow> g \<noteq> []"
  by (auto simp: wf_value_def)

lemma decodeLoop_pairs:
  assumes "\<forall>p \<in> set ps. wf_value (fst p) \<and> wf_value (snd p)"
  shows "decodeLoop (pre @ flatten ps) (length pre) y0 x0 coords =
     coords @ cumulative y0 x0 (map pair_deltas ps)"
  using assms
proof (induction ps arbitrary: pre y0 x0 coords)
  case Nil
  show ?case by (subst decodeLoop.simps) (simp add: flatten_def)
next
  case (Cons p ps)
  obtain a b where p: "p = (a, b)" by (cases p)
  have wa: "wf_value a" and wb: "wf_value b" using Cons.prems p by auto
  have rest: "\<forall>p \<in> set ps. wf_value (fst p) \<and> wf_value (snd p)" using Cons.prems by simp
  let ?enc = "pre @ flatten (p # ps)"
  have e1: "?enc = pre @ a @ (b @ flatten ps)" by (simp add: flatten_def p)
  have e2: "?enc = (pre @ a) @ b @ flatten ps" by (simp add: flatten_def p)
  have e3: "?enc = (pre @ a @ b) @ flatten ps" by (simp add: flatten_def p)
  have lt: "length pre < length ?enc" using wf_value_nonempty[OF wa] by (simp add: e1)
  have d1: "decodeValue ?enc (length pre) 0 0 = (int (group_value a), length pre + length a)"
    unfolding e1 by (rule decodeValue_wf(1)[OF wa])
  have d2: "decodeValue ?enc (length pre + length a) 0 0 =
      (int (group_value b), length pre + length a + length b)"
    using decodeValue_wf(1)[OF wb, of "pre @ a" "flatten ps"] unfolding e2 by simp
  let ?ya = "y0 + unzigzag (group_value a)"
  let ?xa = "x0 + unzigzag (group_value b)"
  let ?c = "\<lparr>lat = of_int ?ya / 100000, lng = of_int ?xa / 100000\<rparr>"
  have ih: "decodeLoop ?enc (length pre + length a + length b) ?ya ?xa (coords @ [?c]) =
      (coords @ [?c]) @ cumulative ?ya ?xa (map pair_deltas ps)"
    using Cons.IH[OF rest, of "pre @ a @ b" ?ya ?xa "coords @ [?c]"] unfolding e3 by (simp add: add.assoc)
  have "decodeLoop ?enc (length pre) y0 x0 coords =
      decodeLoop ?enc (length pre + length a + length b) ?ya ?xa (coords @ [?c])"
    by (subst decodeLoop.simps) (simp only: lt if_True d1 d2 split Let_def decodeValue_wf(2)[OF wa] decodeValue_wf(2)[OF wb])
  moreover have "pair_deltas p = (unzigzag (group_value a), unzigzag (group_value b))"
    by (simp add: p pair_deltas_def)
  ultimately show ?case unfolding ih by simp
qed

lemma cumulative_length: "length (cumulative y0 x0 ds) = length ds"
  by (induction y0 x0 ds rule: cumulative.induct) auto

lemma cumulative_nth:
  "k < length ds \<Longrightarrow> cumulative y0 x0 ds ! k =
     \<lparr>lat = of_int (y0 + sum_list (map fst (take (Suc k) ds))) / 100000,
      lng = of_int (x0 + sum_list (map snd (take (Suc k) ds))) / 100000\<rparr>"
proof (induction y0 x0 ds arbitrary: k rule: cumulative.induct)
  case (1 y0 x0)
  then show ?case by simp
next
  case (2 y0 x0 da dn ds)
  show ?case
  proof (cases k)
    case 0
    then show ?thesis by simp
  next
    case (Suc j)
    then have "j < length ds" using "2.prems" by simp
    from "2.IH"[OF this] show ?thesis using Suc by (simp add: add.assoc)
  qed
qed

lemma decodePolyline_wf:
  assumes "\<forall>p \<in> set ps. wf_value (fst p) \<and> wf_value (snd p)"
  shows "decodePolyline (flatten ps) = cumulative 0 0 (map pair_deltas ps)"
  using decodeLoop_pairs[OF assms, of "[]" 0 0 "[]"] by (simp add: decodePolyline_def)



text \<open>
  Claim C5. \<open>decodePolyline\<close> of the empty string is the empty sequence; of the
  reference string \<^verbatim>\<open>_p~iF~ps|U_ulLnnqC_mqNvxq`@\<close> it is the three points
  (38.5, -120.2), (40.7, -120.95), (43.252, -126.453); and for every well-formed string,
  that is for every sequence \<open>ps\<close> of pairs of well-formed values written one after the
  other, the output has exactly one point per pair, and the latitude and longitude of
  point \<open>k\<close> are the sums of the zig-zag decoded deltas of pairs \<open>0..k\<close> (the
  accumulators start at zero), divided by \<open>10^5\<close>.
\<close>

theorem decodePolyline_cumulative_deltas:
  assumes "\<forall>p \<in> set ps. wf_value (fst p) \<and> wf_value (snd p)"
  shows "decodePolyline [] = [] \<and>
    decodePolyline (code_units ''_p~iF~ps|U_ulLnnqC_mqNvxq`@'') =
      [\<lparr>lat = 38.5, lng = -120.2\<rparr>, \<lparr>lat = 40.7, lng = -120.95\<rparr>,
       \<lparr>lat = 43.252, lng = -126.453\<rparr>] \<and>
    length (decodePolyline (flatten ps)) = length ps \<and>
    (\<forall>k < length ps. decodePolyline (flatten ps) ! k =
      \<lparr>lat = of_int (sum_list (map fst (take (Suc k) (map pair_deltas ps)))) / 100000,
       lng = of_int (sum_list (map snd (take (Suc k) (map pair_deltas ps)))) / 100000\<rparr>)"
proof (intro conjI allI impI)
  show "decodePolyline [] = []"
    unfolding decodePolyline_def by (subst decodeLoop.simps) simp
  show "decodePolyline (code_units ''_p~iF~ps|U_ulLnnqC_mqNvxq`@'') =
      [\<lparr>lat = 38.5, lng = -120.2\<rparr>, \<lparr>lat = 40.7, lng = -120.95\<rparr>,
       \<lparr>lat = 43.252, lng = -126.453\<rparr>]"
    by code_simp
  show "length (decodePolyline (flatten ps)) = length ps"
    by (simp add: decodePolyline_wf[OF assms] cumulative_length)
  fix k assume "k < length ps"
  then show "decodePolyline (flatten ps) ! k =
      \<lparr>lat = of_int (sum_list (map fst (take (Suc k) (map pair_deltas ps)))) / 100000,
       lng = of_int (sum_list (map snd (take (Suc k) (map pair_deltas ps)))) / 100000\<rparr>"
    using cumulative_nth[of k "map pair_deltas ps" 0 0]
    by (simp add: decodePolyline_wf[OF assms])
qed

text \<open>
  The reference string is the three pairs \<^verbatim>\<open>_p~iF ~ps|U\<close>, \<^verbatim>\<open>_ulL nnqC\<close>,
  \<^verbatim>\<open>_mqN vxq`@\<close>, with deltas (3850000, -12020000), (220000, -75000) and
  (255200, -550300).
\<close>

theorem decodePolyline_cumulative_deltas_witness:
  "wf_value (code_units ''_p~iF'') \<and> wf_value (code_units ''~ps|U'') \<and>
   wf_value (code_units ''_ulL'') \<and> wf_value (code_units ''nnqC'') \<and>
   wf_value (code_units ''_mqN'') \<and> wf_value (code_units ''vxq`@'') \<and>
   map pair_deltas [(code_units ''_p~iF'', code_units ''~ps|U''),
                (code_units ''_ulL'', code_units ''nnqC''),
                (code_units ''_mqN'', code_units ''vxq`@'')] =
     [(3850000, -12020000), (220000, -75000), (255200, -550300)] \<and>
   length (decodePolyline (flatten [(code_units ''_p~iF'', code_units ''~ps|U''),
                (code_units ''_ulL'', code_units ''nnqC''),
                (code_units ''_mqN'', code_units ''vxq`@'')])) = 3 \<and>
   decodePolyline (flatten [(code_units ''_p~iF'', code_units ''~ps|U''),
                (code_units ''_ulL'', code_units ''nnqC''),
                (code_units ''_mqN'', code_units ''vxq`@'')]) ! 2 =
     \<lparr>lat = of_int (3850000 + 220000 + 255200) / 100000,
      lng = of_int (- 12020000 + - 75000 + - 550300) / 100000\<rparr>"
proof -
  let ?ps = "[(code_units ''_p~iF'', code_units ''~ps|U''),
                (code_units ''_ulL'', code_units ''nnqC''),
                (code_units ''_mqN'', code_units ''vxq`@'')]"
  have h: "\<forall>p \<in> set ?ps. wf_value (fst p) \<and> wf_value (snd p)"
    by (simp add: wf_value_def code_units_def)
  have d: "map pair_deltas ?ps = [(3850000, -12020000), (220000, -75000), (255200, -550300)]"
    by (simp add: pair_deltas_def code_units_def unzigzag_def)
  from decodePolyline_cumulative_deltas[OF h] have
    "length (decodePolyline (flatten ?ps)) = length ?ps"
    "\<forall>k < length ?ps. decodePolyline (flatten ?ps) ! k =
      \<lparr>lat = of_int (sum_list (map fst (take (Suc k) (map pair_deltas ?ps)))) / 100000,
       lng = of_int (sum_list (map snd (take (Suc k) (map pair_deltas ?ps)))) / 100000\<rparr>"
    by blast+
  then have "length (decodePolyline (flatten ?ps)) = 3"
    and "decodePolyline (flatten ?ps) ! 2 =
      \<lparr>lat = of_int (sum_list (map fst (take (Suc 2) (map pair_deltas ?ps)))) / 100000,
       lng = of_int (sum_list (map snd (take (Suc 2) (map pair_deltas ?ps)))) / 100000\<rparr>"
    by simp_all
  then show ?thesis using h d by (simp add: numeral_3_eq_3)
qed

subsection \<open>Decoding arbitrary input\<close>

lemma decodeValue_index: "index < snd (decodeValue encoded index result shift)"
proof (induction encoded index result shift rule: decodeValue.induct)
  case (1 encoded index result shift)
  show ?case
    by (subst decodeValue.simps) (use 1 in \<open>auto simp: Let_def intro: Suc_lessD\<close>)
qed

lemma decodeValue_past_end:
  "decodeValue encoded (length encoded + k) result shift = (toInt32 result, length encoded + k + 1)"
proof -
  have "charCodeAt encoded (length encoded + k) = None" by (simp add: charCodeAt_def)
  then show ?thesis
    by (subst decodeValue.simps)
      (simp add: js_minus_def js_and_def js_shl_def js_or_def js_ge_def toInt32_def)
qed

lemma decodeLoop_length:
  "length (decodeLoop encoded index latAcc lngAcc coords)
     \<le> length coords + (length encoded - index)"
proof (induction encoded index latAcc lngAcc coords rule: decodeLoop.induct)
  case (1 encoded index latAcc lngAcc coords)
  show ?case
  proof (cases "index < length encoded")
    case False
    then show ?thesis by (subst decodeLoop.simps) simp
  next
    case True
    obtain result1 index1 where d1: "decodeValue encoded index 0 0 = (result1, index1)"
      by (cases "decodeValue encoded index 0 0")
    obtain result2 index2 where d2: "decodeValue encoded index1 0 0 = (result2, index2)"
      by (cases "decodeValue encoded index1 0 0")
    have "index < index1" using decodeValue_index[of index encoded 0 0] d1 by simp
    moreover have "index1 < index2" using decodeValue_index[of index1 encoded 0 0] d2 by simp
    ultimately have less: "Suc (length encoded - index2) \<le> length encoded - index"
      using True by linarith
    let ?cs = "coords @ [\<lparr>lat = of_int (latAcc + zigzag result1) / 100000,
                              lng = of_int (lngAcc + zigzag result2) / 100000\<rparr>]"
    have "length (decodeLoop encoded index2 (latAcc + zigzag result1) (lngAcc + zigzag result2) ?cs)
        \<le> length ?cs + (length encoded - index2)"
      by (rule "1.IH"[OF True d1[symmetric] refl d2[symmetric] refl])
    moreover have "decodeLoop encoded index latAcc lngAcc coords =
        decodeLoop encoded index2 (latAcc + zigzag result1) (lngAcc + zigzag result2) ?cs"
      by (subst decodeLoop.simps) (simp add: True d1 d2)
    ultimately show ?thesis using less by simp
  qed
qed

text \<open>
  Claim C10. \<open>decodePolyline\<close> is total: it is defined by two loops whose termination
  is proved above (the index strictly advances), it has no failing branch, and it returns
  at most one point per code unit of its input, whatever the input. A read at or past the
  end of the string contributes no bits and ends the inner loop, leaving the 32-bit
  \<open>result\<close> as it was, so a truncated encoding yields a last point computed from what
  was read: \<^verbatim>\<open>_p~iF\<close> (the longitude is missing) gives (38.5, 0) and \<^verbatim>\<open>_p~\<close>
  (the latitude is cut after three groups) gives (0.16144, 0).
\<close>

theorem decodePolyline_total:
  "length (decodePolyline encoded) \<le> length encoded \<and>
   decodeValue encoded (length encoded + k) result shift =
     (toInt32 result, length encoded + k + 1) \<and>
   decodePolyline (code_units ''_p~iF'') = [\<lparr>lat = 38.5, lng = 0\<rparr>] \<and>
   decodePolyline (code_units ''_p~'') = [\<lparr>lat = 0.16144, lng = 0\<rparr>]"
proof (intro conjI)
  show "length (decodePolyline encoded) \<le> length encoded"
    using decodeLoop_length[of encoded 0 0 0 "[]"] by (simp add: decodePolyline_def)
  show "decodeValue encoded (length encoded + k) result shift =
     (toInt32 result, length encoded + k + 1)"
    by (rule decodeValue_past_end)
  show "decodePolyline (code_units ''_p~iF'') = [\<lparr>lat = 38.5, lng = 0\<rparr>]"
    by code_simp
  show "decodePolyline (code_units ''_p~'') = [\<lparr>lat = 0.16144, lng = 0\<rparr>]"
    by code_simp
qed

subsection \<open>The country resolver\<close>

lemma ranges_names:
  "getCountryFromCoordinateRanges latv lngv \<in> set [''France'', ''Germany'', ''United Kingdom'',
     ''Italy'', ''Spain'', ''Europe'', ''United States'', ''Canada'', ''Bahrain'', ''Australia'',
     ''Other'']"
  unfolding getCountryFromCoordinateRanges_def by (simp del: ge.simps le.simps)

lemma ranges_nonempty: "getCountryFromCoordinateRanges latv lngv \<noteq> []"
  unfolding getCountryFromCoordinateRanges_def by (simp del: ge.simps le.simps)

lemma usable_nonempty: "usable r \<Longrightarrow> \<exists>c. r = Inr c \<and> c \<noteq> []"
  by (auto simp: usable_def split: sum.splits)

text \<open>
  Claim C4. For every argument and every behaviour of the two geocoding services,
  \<open>getCountryFromCoordinates\<close> returns normally a string that is not empty. A missing
  argument or an array whose length is not 2 gives \<^verbatim>\<open>Unknown\<close>. For a pair, when neither
  tier yields a usable name (each threw, timed out, or answered nothing or
  \<^verbatim>\<open>Unknown\<close>), the result is that of the coordinate-range table, which is one of its
  ten region names or \<^verbatim>\<open>Other\<close>.
\<close>

theorem getCountryFromCoordinates_never_fails:
  "\<exists>c. getCountryFromCoordinates env startLatlng = Inr c \<and> c \<noteq> [] \<and>
     ((startLatlng = None \<or> (\<exists>p. startLatlng = Some p \<and> length p \<noteq> 2)) \<longrightarrow> c = ''Unknown'') \<and>
     (\<forall>latv lngv. startLatlng = Some [latv, lngv] \<and>
        \<not> usable (getCountryFromGoogle env latv lngv) \<and>
        \<not> usable (getCountryFromNominatim env latv lngv) \<longrightarrow>
        c = getCountryFromCoordinateRanges latv lngv \<and>
        c \<in> set [''France'', ''Germany'', ''United Kingdom'', ''Italy'', ''Spain'', ''Europe'',
                  ''United States'', ''Canada'', ''Bahrain'', ''Australia'', ''Other''])"
proof (cases startLatlng)
  case None
  then show ?thesis by (simp add: getCountryFromCoordinates_def)
next
  case (Some pair)
  show ?thesis
  proof (cases "length pair = 2")
    case False
    then show ?thesis using Some by (auto simp: getCountryFromCoordinates_def)
  next
    case True
    then obtain a b where pair: "pair = [a, b]"
      by (cases pair; cases "tl pair") auto
    let ?g = "getCountryFromGoogle env a b" and ?n = "getCountryFromNominatim env a b"
    have r: "getCountryFromCoordinates env startLatlng =
        (if usable ?g then ?g else if usable ?n then ?n
         else Inr (getCountryFromCoordinateRanges a b))"
      by (simp add: getCountryFromCoordinates_def Some pair Let_def)
    consider "usable ?g" | "\<not> usable ?g" "usable ?n" | "\<not> usable ?g" "\<not> usable ?n" by blast
    then show ?thesis
    proof cases
      case 1
      with usable_nonempty[OF 1] r show ?thesis by (auto simp: Some pair)
    next
      case 2
      with usable_nonempty[OF 2(2)] r show ?thesis by (auto simp: Some pair)
    next
      case 3
      have "getCountryFromCoordinates env startLatlng = Inr (getCountryFromCoordinateRanges a b)"
        using 3 r by simp
      then show ?thesis
        using ranges_nonempty[of a b] ranges_names[of a b] by (simp add: Some pair)
    qed
  qed
qed

text \<open>
  No Google key is configured and the request to Nominatim times out: Paris falls through
  to the table.
\<close>

theorem getCountryFromCoordinates_never_fails_witness:
  "\<not> usable (getCountryFromGoogle
       \<lparr>GOOGLE_GEOCODING_API_KEY = None, GOOGLE_MAPS_API_KEY = None,
        google_get = (\<lambda>a b. Inl (RequestFailed None)),
        nominatim_get = (\<lambda>a b. Inl (RequestFailed None))\<rparr> (Fin 48.85) (Fin 2.35)) \<and>
   \<not> usable (getCountryFromNominatim
       \<lparr>GOOGLE_GEOCODING_API_KEY = None, GOOGLE_MAPS_API_KEY = None,
        google_get = (\<lambda>a b. Inl (RequestFailed None)),
        nominatim_get = (\<lambda>a b. Inl (RequestFailed None))\<rparr> (Fin 48.85) (Fin 2.35)) \<and>
   getCountryFromCoordinates
       \<lparr>GOOGLE_GEOCODING_API_KEY = None, GOOGLE_MAPS_API_KEY = None,
        google_get = (\<lambda>a b. Inl (RequestFailed None)),
        nominatim_get = (\<lambda>a b. Inl (RequestFailed None))\<rparr> (Some [Fin 48.85, Fin 2.35])
     = Inr ''France''"
proof -
  let ?env = "\<lparr>GOOGLE_GEOCODING_API_KEY = None, GOOGLE_MAPS_API_KEY = None,
        google_get = (\<lambda>a b. Inl (RequestFailed None)),
        nominatim_get = (\<lambda>a b. Inl (RequestFailed None))\<rparr>"
  have g: "\<not> usable (getCountryFromGoogle ?env (Fin 48.85) (Fin 2.35))"
    by (simp add: usable_def getCountryFromGoogle_def truthy_def)
  have n: "\<not> usable (getCountryFromNominatim ?env (Fin 48.85) (Fin 2.35))"
    by (simp add: usable_def getCountryFromNominatim_def)
  have t: "getCountryFromCoordinateRanges (Fin 48.85) (Fin 2.35) = ''France''"
    by (simp add: getCountryFromCoordinateRanges_def)
  from getCountryFromCoordinates_never_fails[of ?env "Some [Fin 48.85, Fin 2.35]"]
  obtain c where c: "getCountryFromCoordinates ?env (Some [Fin 48.85, Fin 2.35]) = Inr c"
    and f: "\<forall>latv lngv. Some [Fin 48.85, Fin 2.35] = Some [latv, lngv] \<and>
        \<not> usable (getCountryFromGoogle ?env latv lngv) \<and>
        \<not> usable (getCountryFromNominatim ?env latv lngv) \<longrightarrow>
        c = getCountryFromCoordinateRanges latv lngv \<and>
        c \<in> set [''France'', ''Germany'', ''United Kingdom'', ''Italy'', ''Spain'', ''Europe'',
                  ''United States'', ''Canada'', ''Bahrain'', ''Australia'', ''Other'']"
    by blast
  from f g n have "c = getCountryFromCoordinateRanges (Fin 48.85) (Fin 2.35)" by blast
  with c t g n show ?thesis by simp
qed

subsection \<open>The store gateway\<close>

lemma writes_append: "writes (xs @ ys) = writes xs @ writes ys"
  by (induction xs rule: writes.induct) auto

lemma lookups_append: "lookups (xs @ ys) = lookups xs @ lookups ys"
  by (induction xs rule: lookups.induct) auto

lemma put_items_Nil: "put_items [] t = t"
  by (simp add: put_items_def)

lemma put_items_Cons: "put_items (a # items) t = put_items items (t(activity_id a \<mapsto> a))"
  by (simp add: put_items_def)

lemma put_items_other: "k \<notin> activity_id ` set items \<Longrightarrow> put_items items t k = t k"
  by (induction items arbitrary: t) (auto simp: put_items_Nil put_items_Cons)

lemma put_items_dom: "dom t \<subseteq> dom (put_items items t)"
proof (induction items arbitrary: t)
  case Nil show ?case by (simp add: put_items_Nil)
next
  case (Cons a items)
  have "dom t \<subseteq> dom (t(activity_id a \<mapsto> a))" by auto
  also have "\<dots> \<subseteq> dom (put_items items (t(activity_id a \<mapsto> a)))"
    by (rule Cons.IH)
  finally show ?case by (simp only: put_items_Cons)
qed

lemma put_items_append: "put_items (xs @ ys) t = put_items ys (put_items xs t)"
  by (simp add: put_items_def)

lemma send_fail:
  "dynamodb_send e (sends w) = Some ename \<Longrightarrow>
   send e cmd w = (Inl (StoreError ename),
     w\<lparr>sends := sends w + 1, trace := trace w @ [Sent cmd (Some ename)]\<rparr>)"
  by (simp add: send_def)

lemma send_write_ok:
  "dynamodb_send e (sends w) = None \<Longrightarrow>
   send e (BatchWriteCommand items) w = (Inr (),
     w\<lparr>sends := sends w + 1, trace := trace w @ [Sent (BatchWriteCommand items) None],
       table := put_items items (table w)\<rparr>)"
  by (simp add: send_def)

lemma send_get_ok:
  "dynamodb_send e (sends w) = None \<Longrightarrow>
   send e (GetCommand i) w = (Inr (),
     w\<lparr>sends := sends w + 1, trace := trace w @ [Sent (GetCommand i) None]\<rparr>)"
  by (simp add: send_def)

lemma make_batches_concat: "concat (make_batches activities i) = drop i activities"
proof (induction activities i rule: make_batches.induct)
  case (1 activities i)
  show ?case
  proof (cases "i < length activities")
    case True
    have "take 25 (drop i activities) @ drop (i + 25) activities = drop i activities"
      using append_take_drop_id[of 25 "drop i activities"] by (simp add: add.commute)
    then show ?thesis using True 1 by (subst make_batches.simps) simp
  next
    case False
    then show ?thesis by (subst make_batches.simps) simp
  qed
qed

lemma make_batches_size:
  "b \<in> set (make_batches activities i) \<Longrightarrow> b \<noteq> [] \<and> length b \<le> 25"
proof (induction activities i rule: make_batches.induct)
  case (1 activities i)
  show ?case
  proof (cases "i < length activities")
    case True
    with "1.prems" have "b = take 25 (drop i activities) \<or> b \<in> set (make_batches activities (i + 25))"
      by (subst (asm) make_batches.simps) simp
    then show ?thesis using True "1.IH" by auto
  next
    case False
    with "1.prems" show ?thesis by (subst (asm) make_batches.simps) simp
  qed
qed

lemma make_batches_length:
  "length (make_batches activities i) = (length activities - i + 24) div 25"
proof (induction activities i rule: make_batches.induct)
  case (1 activities i)
  show ?case
  proof (cases "i < length activities")
    case True
    then have "length (make_batches activities i) = Suc ((length activities - (i + 25) + 24) div 25)"
      using 1 by (subst make_batches.simps) simp
    also have "\<dots> = (length activities - i + 24) div 25"
    proof (cases "25 \<le> length activities - i")
      case True
      then have "length activities - i + 24 = (length activities - (i + 25) + 24) + 25" by simp
      then show ?thesis by (simp only: div_add_self2)
    next
      case False
      then have "length activities - (i + 25) = 0" by simp
      moreover have "(length activities - i + 24) div 25 = 1"
        using False \<open>i < length activities\<close> by (intro div_nat_eqI) auto
      ultimately show ?thesis by simp
    qed
    finally show ?thesis .
  next
    case False
    then show ?thesis by (subst make_batches.simps) simp
  qed
qed


lemma stamped_id: "stamped item a \<Longrightarrow> activity_id item = activity_id a"
  by (auto simp: stamped_def)

lemma stamped_ids:
  "list_all2 stamped cmd batch \<Longrightarrow> activity_id ` set cmd = activity_id ` set batch"
  by (induction rule: list_all2_induct) (auto simp: stamped_id)

lemma stamped_map: "list_all2 stamped (map (\<lambda>a. a\<lparr>stored_at := Some t\<rparr>) batch) batch"
  by (induction batch) (auto simp: stamped_def)

lemma retry_loop_cases:
  assumes "retry_loop e cmd n retryCount w = (r, w')" "retryCount \<le> 3"
  shows "lookups (trace w') = lookups (trace w) \<and>
    ((r = Inr (length cmd) \<and> table w' = put_items cmd (table w) \<and>
        writes (trace w') = writes (trace w) @ [cmd]) \<or>
     ((\<exists>err. r = Inl err) \<and> table w' = table w \<and> writes (trace w') = writes (trace w)))"
  using assms
proof (induction e cmd n retryCount w rule: retry_loop.induct)
  case (1 e command n retryCount w)
  show ?case
  proof (cases "dynamodb_send e (sends w)")
    case None
    with "1.prems" show ?thesis
      by (subst (asm) retry_loop.simps)
        (auto simp: send_write_ok sleep_def writes_append lookups_append)
  next
    case (Some ename)
    let ?w1 = "w\<lparr>sends := sends w + 1, trace := trace w @ [Sent (BatchWriteCommand command) (Some ename)]\<rparr>"
    have s: "send e (BatchWriteCommand command) w = (Inl (StoreError ename), ?w1)"
      by (rule send_fail[OF Some])
    show ?thesis
    proof (cases "ename = throughput \<and> retryCount < 3")
      case False
      with "1.prems" s show ?thesis
        by (subst (asm) retry_loop.simps) (auto simp: writes_append lookups_append)
    next
      case True
      let ?w2 = "sleep (2 ^ (retryCount + 1) * 1000) ?w1"
      from True "1.prems" s have r: "retry_loop e command n (retryCount + 1) ?w2 = (r, w')"
        by (subst (asm) retry_loop.simps) (simp add: Let_def)
      have le: "retryCount + 1 \<le> 3" using True by simp
      have "lookups (trace w') = lookups (trace ?w2) \<and>
        ((r = Inr (length command) \<and> table w' = put_items command (table ?w2) \<and>
            writes (trace w') = writes (trace ?w2) @ [command]) \<or>
         ((\<exists>err. r = Inl err) \<and> table w' = table ?w2 \<and> writes (trace w') = writes (trace ?w2)))"
        using "1.IH"[OF "1.prems"(2) s[symmetric] refl _ refl refl r le] True by simp
      then show ?thesis by (simp add: sleep_def writes_append lookups_append)
    qed
  qed
qed


lemma store_batches_result:
  assumes "store_batches e n bs tot w = (r, w')"
  shows "lookups (trace w') = lookups (trace w) \<and>
    (\<exists>cmds. writes (trace w') = writes (trace w) @ cmds \<and>
       table w' = put_items (concat cmds) (table w) \<and>
       (case r of
          Inr k \<Rightarrow> k = tot + length (concat bs) \<and> list_all2 (list_all2 stamped) cmds bs
        | Inl err \<Rightarrow> length cmds < length bs \<and>
            list_all2 (list_all2 stamped) cmds (take (length cmds) bs)))"
  using assms
proof (induction bs arbitrary: tot w)
  case Nil
  then show ?case by (auto simp: put_items_Nil)
next
  case (Cons batch bs)
  let ?command = "map (\<lambda>a. a\<lparr>stored_at := Some (date_now e (sends w))\<rparr>) batch"
  obtain r1 w1 where r1: "retry_loop e ?command n 0 w = (r1, w1)"
    by (cases "retry_loop e ?command n 0 w")
  note c = retry_loop_cases[OF r1]
  have st: "list_all2 stamped ?command batch" by (rule stamped_map)
  show ?case
  proof (cases r1)
    case (Inl err)
    with Cons.prems r1 have "r = Inl err" "w' = w1" by (simp_all add: Let_def)
    moreover from c Inl have "table w1 = table w" "writes (trace w1) = writes (trace w)"
      "lookups (trace w1) = lookups (trace w)" by auto
    ultimately show ?thesis by (auto simp: put_items_Nil intro!: exI[of _ "[]"])
  next
    case (Inr k)
    with c have k: "k = length ?command" and t: "table w1 = put_items ?command (table w)"
      and wr: "writes (trace w1) = writes (trace w) @ [?command]"
      and lk: "lookups (trace w1) = lookups (trace w)" by auto
    from Cons.prems r1 Inr have rest: "store_batches e n bs (tot + k) w1 = (r, w')"
      by (simp add: Let_def)
    from Cons.IH[OF rest] obtain cmds where
      l: "lookups (trace w') = lookups (trace w1)" and
      w: "writes (trace w') = writes (trace w1) @ cmds" and
      tb: "table w' = put_items (concat cmds) (table w1)" and
      cs: "(case r of
          Inr k' \<Rightarrow> k' = tot + k + length (concat bs) \<and> list_all2 (list_all2 stamped) cmds bs
        | Inl err \<Rightarrow> length cmds < length bs \<and>
            list_all2 (list_all2 stamped) cmds (take (length cmds) bs))" by blast
    have "writes (trace w') = writes (trace w) @ (?command # cmds)" using w wr by simp
    moreover have "table w' = put_items (concat (?command # cmds)) (table w)"
      using tb t by (simp add: put_items_append)
    moreover have "(case r of
          Inr k' \<Rightarrow> k' = tot + length (concat (batch # bs)) \<and>
            list_all2 (list_all2 stamped) (?command # cmds) (batch # bs)
        | Inl err \<Rightarrow> length (?command # cmds) < length (batch # bs) \<and>
            list_all2 (list_all2 stamped) (?command # cmds)
              (take (length (?command # cmds)) (batch # bs)))"
      using cs st k by (auto split: sum.splits)
    moreover have "lookups (trace w') = lookups (trace w)" using l lk by simp
    ultimately show ?thesis by (intro conjI exI[of _ "?command # cmds"])
  qed
qed

lemma retry_step:
  assumes "dynamodb_send e (sends w) = Some throughput" "retryCount < 3"
  shows "retry_loop e cmd n retryCount w =
    retry_loop e cmd n (Suc retryCount)
      (w\<lparr>sends := Suc (sends w),
         trace := trace w @ [Sent (BatchWriteCommand cmd) (Some throughput),
                             Sleep (2 ^ Suc retryCount * 1000)]\<rparr>)"
  using assms(2) by (subst retry_loop.simps) (simp add: send_fail[OF assms(1)] sleep_def)

lemma retry_last:
  assumes "dynamodb_send e (sends w) = Some ename" "retryCount = 3"
  shows "retry_loop e cmd n retryCount w =
    (Inl (StoreError ename),
     w\<lparr>sends := Suc (sends w),
       trace := trace w @ [Sent (BatchWriteCommand cmd) (Some ename)]\<rparr>)"
  using assms(2) by (subst retry_loop.simps) (simp add: send_fail[OF assms(1)])

lemma four_throughput_failures:
  assumes "dynamodb_send e (sends w) = Some throughput"
    "dynamodb_send e (sends w + 1) = Some throughput"
    "dynamodb_send e (sends w + 2) = Some throughput"
    "dynamodb_send e (sends w + 3) = Some throughput"
  shows "retry_loop e cmd n 0 w = (Inl (StoreError throughput),
    w\<lparr>sends := sends w + 4,
      trace := trace w @
        [Sent (BatchWriteCommand cmd) (Some throughput), Sleep 2000,
         Sent (BatchWriteCommand cmd) (Some throughput), Sleep 4000,
         Sent (BatchWriteCommand cmd) (Some throughput), Sleep 8000,
         Sent (BatchWriteCommand cmd) (Some throughput)]\<rparr>)"
proof -
  let ?f = "Sent (BatchWriteCommand cmd) (Some throughput)"
  let ?w1 = "w\<lparr>sends := Suc (sends w), trace := trace w @ [?f, Sleep (2 ^ Suc 0 * 1000)]\<rparr>"
  let ?w2 = "?w1\<lparr>sends := Suc (sends ?w1),
     trace := trace ?w1 @ [?f, Sleep (2 ^ Suc (Suc 0) * 1000)]\<rparr>"
  let ?w3 = "?w2\<lparr>sends := Suc (sends ?w2),
     trace := trace ?w2 @ [?f, Sleep (2 ^ Suc (Suc (Suc 0)) * 1000)]\<rparr>"
  have a1: "dynamodb_send e (sends ?w1) = Some throughput" using assms(2) by simp
  have a2: "dynamodb_send e (sends ?w2) = Some throughput"
    using assms(3) by (simp add: numeral_2_eq_2)
  have a3: "dynamodb_send e (sends ?w3) = Some throughput"
    using assms(4) by (simp add: numeral_3_eq_3)
  have "retry_loop e cmd n 0 w = retry_loop e cmd n (Suc 0) ?w1"
    by (rule retry_step[OF assms(1)]) simp
  also have "\<dots> = retry_loop e cmd n (Suc (Suc 0)) ?w2"
    by (rule retry_step[OF a1]) simp
  also have "\<dots> = retry_loop e cmd n (Suc (Suc (Suc 0))) ?w3"
    by (rule retry_step[OF a2]) simp
  also have "\<dots> = (Inl (StoreError throughput),
      ?w3\<lparr>sends := Suc (sends ?w3), trace := trace ?w3 @ [?f]\<rparr>)"
    by (rule retry_last[OF a3]) simp
  finally show ?thesis by simp
qed

lemma store_batches_append:
  "store_batches e n (pre @ bs) tot w =
     (case store_batches e n pre tot w of
        (Inl err, w1) \<Rightarrow> (Inl err, w1)
      | (Inr k, w1) \<Rightarrow> store_batches e n bs k w1)"
  by (induction pre arbitrary: tot w) (auto simp: Let_def split: prod.splits sum.splits)


lemma retry_ok:
  assumes "dynamodb_send e (sends w) = None" "retryCount \<le> 3"
  shows "retry_loop e cmd n retryCount w =
    (Inr (length cmd),
     w\<lparr>sends := Suc (sends w),
       trace := trace w @ [Sent (BatchWriteCommand cmd) None, Sleep (if n > 500 then 1000 else 500)],
       table := put_items cmd (table w)\<rparr>)"
  using assms(2) by (subst retry_loop.simps) (simp add: send_write_ok[OF assms(1)] sleep_def)

lemma sample_batches:
  "make_batches (map sample_activity [1..26]) 0 =
     [map sample_activity [1..25], [sample_activity 26]]"
  by code_simp

text \<open>
  Claim C2, as the code has it. \<open>storeActivities\<close> splits a list of \<open>N\<close> activities
  into \<open>\<lceil>N/25\<rceil>\<close> batches of at most 25 items that concatenate to the input; when it
  returns normally it has stored \<open>N\<close> items and the batches it has written are exactly
  those batches, in order, each item stamped with \<^verbatim>\<open>stored_at\<close>. A batch is sent up to
  four times: when the first attempt and its three retries (after waits of 2, 4 and 8
  seconds) all fail with a throughput-exceeded error, that error is returned, the table is
  as the earlier batches left it, and none of the later batches is sent.
\<close>

theorem storeActivities_batches:
  "length (make_batches activities 0) = (length activities + 24) div 25 \<and>
   (\<forall>b \<in> set (make_batches activities 0). b \<noteq> [] \<and> length b \<le> 25) \<and>
   concat (make_batches activities 0) = activities \<and>
   (\<forall>k w'. storeActivities e activities w = (Inr k, w') \<longrightarrow>
      k = length activities \<and>
      (\<exists>cmds. writes (trace w') = writes (trace w) @ cmds \<and>
         list_all2 (list_all2 stamped) cmds (make_batches activities 0))) \<and>
   (\<forall>pre batch rest k w1.
      make_batches activities 0 = pre @ batch # rest \<and>
      store_batches e (length activities) pre 0 w = (Inr k, w1) \<and>
      dynamodb_send e (sends w1) = Some throughput \<and>
      dynamodb_send e (sends w1 + 1) = Some throughput \<and>
      dynamodb_send e (sends w1 + 2) = Some throughput \<and>
      dynamodb_send e (sends w1 + 3) = Some throughput \<longrightarrow>
      storeActivities e activities w =
        (Inl (StoreError throughput),
         w1\<lparr>sends := sends w1 + 4,
            trace := trace w1 @
              [Sent (BatchWriteCommand
                 (map (\<lambda>a. a\<lparr>stored_at := Some (date_now e (sends w1))\<rparr>) batch))
                 (Some throughput), Sleep 2000,
               Sent (BatchWriteCommand
                 (map (\<lambda>a. a\<lparr>stored_at := Some (date_now e (sends w1))\<rparr>) batch))
                 (Some throughput), Sleep 4000,
               Sent (BatchWriteCommand
                 (map (\<lambda>a. a\<lparr>stored_at := Some (date_now e (sends w1))\<rparr>) batch))
                 (Some throughput), Sleep 8000,
               Sent (BatchWriteCommand
                 (map (\<lambda>a. a\<lparr>stored_at := Some (date_now e (sends w1))\<rparr>) batch))
                 (Some throughput)]\<rparr>) \<and>
      table (snd (storeActivities e activities w)) = table w1 \<and>
      writes (trace (snd (storeActivities e activities w))) = writes (trace w1))"
proof (intro conjI allI impI ballI)
  show "length (make_batches activities 0) = (length activities + 24) div 25"
    by (simp add: make_batches_length)
  show "concat (make_batches activities 0) = activities"
    by (simp add: make_batches_concat)
next
  fix b assume "b \<in> set (make_batches activities 0)"
  then show "b \<noteq> []" "length b \<le> 25" using make_batches_size by blast+
next
  fix k w' assume a: "storeActivities e activities w = (Inr k, w')"
  then have "store_batches e (length activities) (make_batches activities 0) 0 w = (Inr k, w')"
    by (simp add: storeActivities_def)
  from store_batches_result[OF this] obtain cmds where
    c: "writes (trace w') = writes (trace w) @ cmds"
      "k = 0 + length (concat (make_batches activities 0))"
      "list_all2 (list_all2 stamped) cmds (make_batches activities 0)" by auto
  show "k = length activities" using c(2) by (simp add: make_batches_concat)
  show "\<exists>cmds. writes (trace w') = writes (trace w) @ cmds \<and>
         list_all2 (list_all2 stamped) cmds (make_batches activities 0)"
    using c(1,3) by blast
next
  fix pre batch rest k w1
  assume a: "make_batches activities 0 = pre @ batch # rest \<and>
      store_batches e (length activities) pre 0 w = (Inr k, w1) \<and>
      dynamodb_send e (sends w1) = Some throughput \<and>
      dynamodb_send e (sends w1 + 1) = Some throughput \<and>
      dynamodb_send e (sends w1 + 2) = Some throughput \<and>
      dynamodb_send e (sends w1 + 3) = Some throughput"
  let ?cmd = "map (\<lambda>a. a\<lparr>stored_at := Some (date_now e (sends w1))\<rparr>) batch"
  let ?f = "Sent (BatchWriteCommand ?cmd) (Some throughput)"
  let ?w = "w1\<lparr>sends := sends w1 + 4,
      trace := trace w1 @ [?f, Sleep 2000, ?f, Sleep 4000, ?f, Sleep 8000, ?f]\<rparr>"
  have r: "retry_loop e ?cmd (length activities) 0 w1 = (Inl (StoreError throughput), ?w)"
    using a by (intro four_throughput_failures) simp_all
  have "storeActivities e activities w =
      store_batches e (length activities) (batch # rest) k w1"
    using a by (simp add: storeActivities_def store_batches_append)
  also have "\<dots> = (Inl (StoreError throughput), ?w)"
    using r by (simp add: Let_def)
  finally show res: "storeActivities e activities w = (Inl (StoreError throughput), ?w)" .
  show "table (snd (storeActivities e activities w)) = table w1" unfolding res by simp
  show "writes (trace (snd (storeActivities e activities w))) = writes (trace w1)"
    unfolding res by (simp add: writes_append)
qed


text \<open>
  Twenty-six activities, two batches. With every request failing on throughput the first
  batch is given up after four attempts and record 26 is never written; with every request
  succeeding both batches are written.
\<close>

theorem storeActivities_batches_witness:
  "make_batches (map sample_activity [1..26]) 0 =
     [] @ map sample_activity [1..25] # [[sample_activity 26]] \<and>
   store_batches (sample_env (\<lambda>n. Some throughput)) (length (map sample_activity [1..26])) [] 0
     empty_world = (Inr 0, empty_world) \<and>
   dynamodb_send (sample_env (\<lambda>n. Some throughput)) (sends empty_world) = Some throughput \<and>
   dynamodb_send (sample_env (\<lambda>n. Some throughput)) (sends empty_world + 1) = Some throughput \<and>
   dynamodb_send (sample_env (\<lambda>n. Some throughput)) (sends empty_world + 2) = Some throughput \<and>
   dynamodb_send (sample_env (\<lambda>n. Some throughput)) (sends empty_world + 3) = Some throughput \<and>
   fst (storeActivities (sample_env (\<lambda>n. Some throughput)) (map sample_activity [1..26])
     empty_world) = Inl (StoreError throughput) \<and>
   table (snd (storeActivities (sample_env (\<lambda>n. Some throughput)) (map sample_activity [1..26])
     empty_world)) 26 = None \<and>
   fst (storeActivities (sample_env (\<lambda>n. None)) (map sample_activity [1..26]) empty_world)
     = Inr 26 \<and>
   (\<exists>cmds. writes (trace (snd (storeActivities (sample_env (\<lambda>n. None))
        (map sample_activity [1..26]) empty_world))) = cmds \<and>
      list_all2 (list_all2 stamped) cmds [map sample_activity [1..25], [sample_activity 26]])"
proof -
  let ?xs = "map sample_activity [1..26]"
  let ?bad = "sample_env (\<lambda>n. Some throughput)"
  let ?good = "sample_env (\<lambda>n. None)"
  have b: "make_batches ?xs 0 = [] @ map sample_activity [1..25] # [[sample_activity 26]]"
    using sample_batches by simp
  have p: "store_batches ?bad (length ?xs) [] 0 empty_world = (Inr 0, empty_world)" by simp
  have d: "dynamodb_send ?bad (sends empty_world) = Some throughput"
    "dynamodb_send ?bad (sends empty_world + 1) = Some throughput"
    "dynamodb_send ?bad (sends empty_world + 2) = Some throughput"
    "dynamodb_send ?bad (sends empty_world + 3) = Some throughput"
    by (simp_all add: sample_env_def)
  from storeActivities_batches[of ?xs ?bad empty_world] b p d
  have f: "fst (storeActivities ?bad ?xs empty_world) = Inl (StoreError throughput)"
    and t: "table (snd (storeActivities ?bad ?xs empty_world)) = table empty_world"
    by (metis fst_conv)+
  have l: "length ?xs = 26" by simp
  have g: "storeActivities ?good ?xs empty_world =
      store_batches ?good 26 [map sample_activity [1..25], [sample_activity 26]] 0 empty_world"
    unfolding storeActivities_def sample_batches l ..
  have gd: "dynamodb_send ?good = (\<lambda>n. None)" by (simp add: sample_env_def)
  have ok: "fst (storeActivities ?good ?xs empty_world) = Inr 26"
    unfolding g by (simp add: retry_ok gd Let_def)
  then have "storeActivities ?good ?xs empty_world =
      (Inr 26, snd (storeActivities ?good ?xs empty_world))"
    by (metis prod.collapse)
  with storeActivities_batches[of ?xs ?good empty_world]
  have "\<exists>cmds. writes (trace (snd (storeActivities ?good ?xs empty_world))) =
        writes (trace empty_world) @ cmds \<and>
      list_all2 (list_all2 stamped) cmds (make_batches ?xs 0)"
    by blast
  then have w: "\<exists>cmds. writes (trace (snd (storeActivities ?good ?xs empty_world))) = cmds \<and>
      list_all2 (list_all2 stamped) cmds [map sample_activity [1..25], [sample_activity 26]]"
    by (simp add: sample_batches empty_world_def)
  from t have "table (snd (storeActivities ?bad ?xs empty_world)) 26 = None"
    by (simp add: empty_world_def)
  with b p d f ok w show ?thesis by blast
qed

text \<open>
  The claim as it was worded has the failure propagated after three consecutive
  throughput errors. Here the first three requests fail so and the fourth succeeds: the
  run returns normally with all 26 items stored, the second batch included.
\<close>

theorem three_failures_then_success:
  "fst (storeActivities (sample_env (\<lambda>n. if n < 3 then Some throughput else None))
         (map sample_activity [1..26]) empty_world) = Inr 26 \<and>
   table (snd (storeActivities (sample_env (\<lambda>n. if n < 3 then Some throughput else None))
         (map sample_activity [1..26]) empty_world)) 26 =
     Some ((sample_activity 26)\<lparr>stored_at := Some 4000\<rparr>)"
proof -
  let ?e = "sample_env (\<lambda>n. if n < 3 then Some throughput else None)"
  have d: "dynamodb_send ?e = (\<lambda>n. if n < 3 then Some throughput else None)"
    by (simp add: sample_env_def)
  have l: "length (map sample_activity [1..26]) = 26" by simp
  have s: "storeActivities ?e (map sample_activity [1..26]) empty_world =
    store_batches ?e 26 [map sample_activity [1..25], [sample_activity 26]] 0 empty_world"
    unfolding storeActivities_def sample_batches l ..
  show ?thesis unfolding s
    by (simp add: retry_step retry_ok d empty_world_def Let_def put_items_Cons put_items_Nil
        put_items_append sample_activity_def sample_env_def)
qed

subsection \<open>The background sync\<close>

lemma activityExists_eq:
  "activityExists e i w =
    (Inr (dynamodb_send e (sends w) = None \<and> table w i \<noteq> None),
     w\<lparr>sends := Suc (sends w),
       trace := trace w @ [Sent (GetCommand i) (dynamodb_send e (sends w))]\<rparr>)"
  by (cases "dynamodb_send e (sends w)") (simp_all add: activityExists_def send_def)

lemma check_duplicates_eq:
  "check_duplicates e athlete as acc skipped w =
    (Inr (acc @ map (\<lambda>(n, a). a\<lparr>athlete_id := Some athlete\<rparr>)
                 (filter (treated_as_new e (table w)) (enumerate (sends w) as)),
          skipped + length (filter (\<lambda>p. \<not> treated_as_new e (table w) p) (enumerate (sends w) as))),
     w\<lparr>sends := sends w + length as,
       trace := trace w @
         map (\<lambda>(n, a). Sent (GetCommand (activity_id a)) (dynamodb_send e n))
           (enumerate (sends w) as)\<rparr>)"
proof (induction as arbitrary: acc skipped w)
  case Nil
  show ?case by simp
next
  case (Cons a as)
  let ?w1 = "w\<lparr>sends := Suc (sends w),
       trace := trace w @ [Sent (GetCommand (activity_id a)) (dynamodb_send e (sends w))]\<rparr>"
  have t: "table ?w1 = table w" "sends ?w1 = Suc (sends w)" by simp_all
  show ?case
  proof (cases "treated_as_new e (table w) (sends w, a)")
    case True
    then have "check_duplicates e athlete (a # as) acc skipped w =
        check_duplicates e athlete as (acc @ [a\<lparr>athlete_id := Some athlete\<rparr>]) skipped ?w1"
      by (auto simp: activityExists_eq treated_as_new_def)
    then show ?thesis
      unfolding Cons.IH t using True by simp
  next
    case False
    then have "check_duplicates e athlete (a # as) acc skipped w =
        check_duplicates e athlete as acc (skipped + 1) ?w1"
      by (auto simp: activityExists_eq treated_as_new_def)
    then show ?thesis
      unfolding Cons.IH t using False by simp
  qed
qed

lemma list_all2_concat:
  "list_all2 (list_all2 R) xss yss \<Longrightarrow> list_all2 R (concat xss) (concat yss)"
  by (induction rule: list_all2_induct) (auto intro: list_all2_appendI)

lemma list_all2_witness:
  "list_all2 R xs ys \<Longrightarrow> x \<in> set xs \<Longrightarrow> \<exists>y \<in> set ys. R x y"
  by (induction rule: list_all2_induct) auto

lemma storeActivities_writes:
  assumes "storeActivities e xs w = (r, w')"
  shows "lookups (trace w') = lookups (trace w) \<and>
    (\<exists>cmds. writes (trace w') = writes (trace w) @ cmds \<and>
       table w' = put_items (concat cmds) (table w) \<and>
       (\<forall>item \<in> set (concat cmds). \<exists>a \<in> set xs. stamped item a) \<and>
       (\<forall>k. r = Inr k \<longrightarrow> k = length xs \<and> list_all2 stamped (concat cmds) xs))"
proof -
  let ?bs = "make_batches xs 0"
  from assms have "store_batches e (length xs) ?bs 0 w = (r, w')"
    by (simp add: storeActivities_def)
  from store_batches_result[OF this] obtain cmds where
    l: "lookups (trace w') = lookups (trace w)" and
    w: "writes (trace w') = writes (trace w) @ cmds" and
    t: "table w' = put_items (concat cmds) (table w)" and
    c: "(case r of
          Inr k \<Rightarrow> k = 0 + length (concat ?bs) \<and> list_all2 (list_all2 stamped) cmds ?bs
        | Inl err \<Rightarrow> length cmds < length ?bs \<and>
            list_all2 (list_all2 stamped) cmds (take (length cmds) ?bs))" by blast
  have cc: "concat ?bs = xs" by (simp add: make_batches_concat)
  obtain j where j: "list_all2 (list_all2 stamped) cmds (take j ?bs)"
    using c by (cases r) (auto intro: that[of "length cmds"] that[of "length ?bs"])
  have items: "\<forall>item \<in> set (concat cmds). \<exists>a \<in> set xs. stamped item a"
  proof
    fix item assume "item \<in> set (concat cmds)"
    with list_all2_witness[OF list_all2_concat[OF j]] obtain a
      where "a \<in> set (concat (take j ?bs))" "stamped item a" by blast
    moreover have "set (concat (take j ?bs)) \<subseteq> set (concat ?bs)"
      by (auto dest: in_set_takeD)
    ultimately show "\<exists>a \<in> set xs. stamped item a" using cc by auto
  qed
  have ok: "\<forall>k. r = Inr k \<longrightarrow> k = length xs \<and> list_all2 stamped (concat cmds) xs"
  proof (intro allI impI)
    fix k assume "r = Inr k"
    with c have "k = length (concat ?bs)" "list_all2 (list_all2 stamped) cmds ?bs" by auto
    then show "k = length xs \<and> list_all2 stamped (concat cmds) xs"
      using list_all2_concat[of stamped cmds ?bs] cc by simp
  qed
  from l w t items ok show ?thesis by blast
qed

lemma storeActivities_frame:
  assumes "storeActivities e xs w = (r, w')"
  shows "(\<forall>k. k \<notin> activity_id ` set xs \<longrightarrow> table w' k = table w k) \<and>
    dom (table w) \<subseteq> dom (table w')"
proof -
  from storeActivities_writes[OF assms] obtain cmds where
    t: "table w' = put_items (concat cmds) (table w)" and
    i: "\<forall>item \<in> set (concat cmds). \<exists>a \<in> set xs. stamped item a" by blast
  have "activity_id ` set (concat cmds) \<subseteq> activity_id ` set xs"
  proof
    fix k assume "k \<in> activity_id ` set (concat cmds)"
    then obtain item where "item \<in> set (concat cmds)" "k = activity_id item" by blast
    with i obtain a where "a \<in> set xs" "stamped item a" by blast
    then show "k \<in> activity_id ` set xs" using stamped_id \<open>k = activity_id item\<close> by force
  qed
  then have "\<forall>k. k \<notin> activity_id ` set xs \<longrightarrow> table w' k = table w k"
    unfolding t using put_items_other by blast
  moreover have "dom (table w) \<subseteq> dom (table w')" unfolding t by (rule put_items_dom)
  ultimately show ?thesis by blast
qed

lemma getActivityCount_eq:
  "table (getActivityCount e athlete w) = table w \<and>
   writes (trace (getActivityCount e athlete w)) = writes (trace w) \<and>
   lookups (trace (getActivityCount e athlete w)) = lookups (trace w)"
  by (cases "dynamodb_send e (sends w)")
    (simp_all add: getActivityCount_def send_def writes_append lookups_append)


lemma enumerate_nth_mem: "k < length xs \<Longrightarrow> (n + k, xs ! k) \<in> set (enumerate n xs)"
  by (simp add: in_set_enumerate_eq)

lemma lookups_gets:
  "lookups (map (\<lambda>(n, a). Sent (GetCommand (activity_id a)) (f n)) ps) = map (activity_id \<circ> snd) ps"
  by (induction ps) auto

lemma writes_gets: "writes (map (\<lambda>(n, a). Sent (GetCommand (activity_id a)) (f n)) ps) = []"
  by (induction ps) auto

lemma put_items_snoc: "put_items (xs @ [x]) t = (put_items xs t)(activity_id x \<mapsto> x)"
  by (simp add: put_items_def)

lemma put_items_in:
  "k \<in> activity_id ` set items \<Longrightarrow>
     \<exists>item \<in> set items. put_items items t k = Some item \<and> activity_id item = k"
proof (induction items rule: rev_induct)
  case Nil
  then show ?case by simp
next
  case (snoc x xs)
  show ?case
  proof (cases "activity_id x = k")
    case True
    then show ?thesis by (auto simp: put_items_snoc)
  next
    case False
    with snoc.prems have "k \<in> activity_id ` set xs" by auto
    from snoc.IH[OF this] False show ?thesis by (auto simp: put_items_snoc)
  qed
qed

lemma filter_enumerate_length:
  assumes "\<forall>k < length xs. P (n + k, xs ! k) = Q (xs ! k)"
  shows "length (filter P (enumerate n xs)) = length (filter Q xs)"
proof -
  have "filter P (enumerate n xs) = filter (Q \<circ> snd) (enumerate n xs)"
  proof (rule filter_cong[OF refl])
    fix p assume mem: "p \<in> set (enumerate n xs)"
    obtain m a where pm: "p = (m, a)" by (cases p)
    with mem have p: "p = (m, a)" "n \<le> m" "m < length xs + n" "xs ! (m - n) = a"
      by (simp_all add: in_set_enumerate_eq)
    have "m - n < length xs" using p(2,3) by linarith
    with assms have "P (n + (m - n), xs ! (m - n)) = Q (xs ! (m - n))" by blast
    moreover have "n + (m - n) = m" using p(2) by simp
    ultimately show "P p = (Q \<circ> snd) p" using p(1,4) by simp
  qed
  then have "length (filter P (enumerate n xs)) = length (map snd (filter (Q \<circ> snd) (enumerate n xs)))"
    by simp
  also have "\<dots> = length (filter Q (map snd (enumerate n xs)))" by (simp only: filter_map)
  finally show ?thesis by simp
qed

lemma persist_incremental:
  assumes "persist e athlete False newActivities w = (outcome, w')"
  shows "lookups (trace w') = lookups (trace w) @ map activity_id newActivities \<and>
    (\<exists>cmds. writes (trace w') = writes (trace w) @ cmds \<and>
       (\<forall>item \<in> set (concat cmds). \<exists>k < length newActivities.
          stamped item ((newActivities ! k)\<lparr>athlete_id := Some athlete\<rparr>) \<and>
          treated_as_new e (table w) (sends w + k, newActivities ! k))) \<and>
    (\<forall>stored skipped. outcome = Completed stored skipped \<longrightarrow>
       stored = length (filter (treated_as_new e (table w)) (enumerate (sends w) newActivities)) \<and>
       skipped = length (filter (\<lambda>p. \<not> treated_as_new e (table w) p)
                          (enumerate (sends w) newActivities)))"
proof -
  let ?new = "filter (treated_as_new e (table w)) (enumerate (sends w) newActivities)"
  let ?toStore = "map (\<lambda>(n, a). a\<lparr>athlete_id := Some athlete\<rparr>) ?new"
  let ?skipped = "length (filter (\<lambda>p. \<not> treated_as_new e (table w) p)
      (enumerate (sends w) newActivities))"
  let ?w1 = "w\<lparr>sends := sends w + length newActivities,
       trace := trace w @
         map (\<lambda>(n, a). Sent (GetCommand (activity_id a)) (dynamodb_send e n))
           (enumerate (sends w) newActivities)\<rparr>"
  have c: "check_duplicates e athlete newActivities [] 0 w = (Inr (?toStore, ?skipped), ?w1)"
    by (simp add: check_duplicates_eq)
  have l1: "lookups (trace ?w1) = lookups (trace w) @ map activity_id newActivities"
    by (simp add: lookups_append lookups_gets map_snd_enumerate flip: map_map)
  have wr1: "writes (trace ?w1) = writes (trace w)"
    by (simp add: writes_append writes_gets)
  have origin: "\<exists>k < length newActivities.
          stamped item ((newActivities ! k)\<lparr>athlete_id := Some athlete\<rparr>) \<and>
          treated_as_new e (table w) (sends w + k, newActivities ! k)"
    if "a \<in> set ?toStore" "stamped item a" for item a
  proof -
    from that(1) obtain n b where nb: "(n, b) \<in> set ?new" "a = b\<lparr>athlete_id := Some athlete\<rparr>"
      by auto
    then have m: "sends w \<le> n" "n < length newActivities + sends w"
      "newActivities ! (n - sends w) = b" and t: "treated_as_new e (table w) (n, b)"
      by (simp_all add: in_set_enumerate_eq)
    let ?k = "n - sends w"
    have "?k < length newActivities" using m(1,2) by linarith
    moreover have "sends w + ?k = n" using m(1) by simp
    ultimately show ?thesis using that(2) nb(2) m(3) t by auto
  qed
  show ?thesis
  proof (cases "length ?toStore > 0")
    case False
    with assms c have o: "outcome = Completed 0 ?skipped" "w' = getActivityCount e athlete ?w1"
      by (simp_all add: persist_def)
    have "length ?new = 0" using False by simp
    with o l1 wr1 show ?thesis by (auto simp: getActivityCount_eq)
  next
    case True
    obtain r w2 where s: "storeActivities e ?toStore ?w1 = (r, w2)"
      by (cases "storeActivities e ?toStore ?w1")
    from storeActivities_writes[OF s] obtain cmds where
      l2: "lookups (trace w2) = lookups (trace ?w1)" and
      wr2: "writes (trace w2) = writes (trace ?w1) @ cmds" and
      it: "\<forall>item \<in> set (concat cmds). \<exists>a \<in> set ?toStore. stamped item a" and
      ok: "\<forall>k. r = Inr k \<longrightarrow> k = length ?toStore \<and> list_all2 stamped (concat cmds) ?toStore"
      by blast
    have lw: "lookups (trace w') = lookups (trace w2) \<and> writes (trace w') = writes (trace w2)"
      using assms c s True by (cases r) (auto simp: persist_def getActivityCount_eq)
    have cnt: "\<forall>stored skipped. outcome = Completed stored skipped \<longrightarrow>
        stored = length ?new \<and> skipped = ?skipped"
      using assms c s True ok by (cases r) (auto simp: persist_def)
    have "\<forall>item \<in> set (concat cmds). \<exists>k < length newActivities.
          stamped item ((newActivities ! k)\<lparr>athlete_id := Some athlete\<rparr>) \<and>
          treated_as_new e (table w) (sends w + k, newActivities ! k)"
      using it origin by blast
    moreover have "writes (trace w') = writes (trace w) @ cmds" using lw wr2 wr1 by simp
    moreover have "lookups (trace w') = lookups (trace w) @ map activity_id newActivities"
      using lw l2 l1 by simp
    ultimately show ?thesis using cnt by blast
  qed
qed

lemma persist_full:
  assumes "persist e athlete True newActivities w = (outcome, w')"
  shows "lookups (trace w') = lookups (trace w) \<and>
    (\<forall>stored skipped. outcome = Completed stored skipped \<longrightarrow>
       stored = length newActivities \<and> skipped = 0 \<and>
       (\<exists>cmds. writes (trace w') = writes (trace w) @ cmds \<and>
          list_all2 stamped (concat cmds)
            (map (\<lambda>a. a\<lparr>athlete_id := Some athlete\<rparr>) newActivities)) \<and>
       (\<forall>a \<in> set newActivities. \<exists>a' \<in> set newActivities. activity_id a' = activity_id a \<and>
          (\<exists>item. table w' (activity_id a) = Some item \<and>
             stamped item (a'\<lparr>athlete_id := Some athlete\<rparr>))))"
proof -
  let ?xs = "map (\<lambda>a. a\<lparr>athlete_id := Some athlete\<rparr>) newActivities"
  obtain r w1 where s: "storeActivities e ?xs w = (r, w1)"
    by (cases "storeActivities e ?xs w")
  from storeActivities_writes[OF s] obtain cmds where
    l: "lookups (trace w1) = lookups (trace w)" and
    wr: "writes (trace w1) = writes (trace w) @ cmds" and
    t: "table w1 = put_items (concat cmds) (table w)" and
    ok: "\<forall>k. r = Inr k \<longrightarrow> k = length ?xs \<and> list_all2 stamped (concat cmds) ?xs"
    by blast
  have l': "lookups (trace w') = lookups (trace w)"
    using assms s l by (cases r) (auto simp: persist_def Let_def getActivityCount_eq)
  have "stored = length newActivities \<and> skipped = 0 \<and>
       (\<exists>cmds. writes (trace w') = writes (trace w) @ cmds \<and> list_all2 stamped (concat cmds) ?xs) \<and>
       (\<forall>a \<in> set newActivities. \<exists>a' \<in> set newActivities. activity_id a' = activity_id a \<and>
          (\<exists>item. table w' (activity_id a) = Some item \<and>
             stamped item (a'\<lparr>athlete_id := Some athlete\<rparr>)))"
    if o: "outcome = Completed stored skipped" for stored skipped
  proof -
    from assms s o have r: "r = Inr stored" and sk: "skipped = 0"
      and w': "w' = getActivityCount e athlete w1"
      by (cases r; auto simp: persist_def Let_def)+
    from ok r have st: "stored = length newActivities" and
      all: "list_all2 stamped (concat cmds) ?xs" by auto
    have tw: "table w' = put_items (concat cmds) (table w)"
      and ww: "writes (trace w') = writes (trace w) @ cmds"
      using w' t wr by (simp_all add: getActivityCount_eq)
    have ids: "activity_id ` set (concat cmds) = activity_id ` set newActivities"
      using stamped_ids[OF all] by (simp add: image_image)
    have over: "\<exists>a' \<in> set newActivities. activity_id a' = activity_id a \<and>
          (\<exists>item. table w' (activity_id a) = Some item \<and>
             stamped item (a'\<lparr>athlete_id := Some athlete\<rparr>))"
      if "a \<in> set newActivities" for a
    proof -
      from that ids have "activity_id a \<in> activity_id ` set (concat cmds)" by blast
      from put_items_in[OF this, of "table w"] obtain item where
        i: "item \<in> set (concat cmds)" "table w' (activity_id a) = Some item"
          "activity_id item = activity_id a" unfolding tw by blast
      from list_all2_witness[OF all i(1)] obtain b where
        b: "b \<in> set ?xs" "stamped item b" by blast
      then obtain a' where a': "a' \<in> set newActivities" "b = a'\<lparr>athlete_id := Some athlete\<rparr>"
        by auto
      have "activity_id a' = activity_id a" using stamped_id[OF b(2)] a'(2) i(3) by simp
      with a' b(2) i(2) show ?thesis by blast
    qed
    from st sk ww all over show ?thesis by blast
  qed
  with l' show ?thesis by blast
qed



lemma treated_quiet:
  assumes nf: "\<forall>k < length newActivities. dynamodb_send e (sends w + k) = None"
  shows "length (filter (treated_as_new e (table w)) (enumerate (sends w) newActivities)) =
        length (filter (\<lambda>a. table w (activity_id a) = None) newActivities)"
    and "length (filter (\<lambda>p. \<not> treated_as_new e (table w) p)
          (enumerate (sends w) newActivities)) =
        length (filter (\<lambda>a. table w (activity_id a) \<noteq> None) newActivities)"
proof -
  have d: "dynamodb_send e (sends w + k) = None" if "k < length newActivities" for k
    using nf that by blast
  have eq: "\<forall>k < length newActivities.
      treated_as_new e (table w) (sends w + k, newActivities ! k) =
      (table w (activity_id (newActivities ! k)) = None)"
    by (simp add: treated_as_new_def d)
  have eq': "\<forall>k < length newActivities.
      (\<not> treated_as_new e (table w) (sends w + k, newActivities ! k)) =
      (table w (activity_id (newActivities ! k)) \<noteq> None)"
    by (simp add: treated_as_new_def d)
  note r1 = filter_enumerate_length[where xs = newActivities and n = "sends w"
          and P = "treated_as_new e (table w)" and Q = "\<lambda>a. table w (activity_id a) = None"]
  note r2 = filter_enumerate_length[where xs = newActivities and n = "sends w"
          and P = "\<lambda>p. \<not> treated_as_new e (table w) p"
          and Q = "\<lambda>a. table w (activity_id a) \<noteq> None"]
  show "length (filter (treated_as_new e (table w)) (enumerate (sends w) newActivities)) =
        length (filter (\<lambda>a. table w (activity_id a) = None) newActivities)"
    using eq by (rule r1)
  show "length (filter (\<lambda>p. \<not> treated_as_new e (table w) p)
          (enumerate (sends w) newActivities)) =
        length (filter (\<lambda>a. table w (activity_id a) \<noteq> None) newActivities)"
    using eq' by (rule r2)
qed

lemma sample_fetch:
  "fetchStravaActivities (upstream_env outcomes [sample_raw 1 ''Run'', sample_raw 2 ''Ride'']) tok =
     Some (Inr [sample_processed 1, (sample_processed 2)\<lparr>activity_type := Some ''ride''\<rparr>])"
  by code_simp

lemma sample_fetch1:
  "fetchStravaActivities (upstream_env outcomes [sample_raw 1 ''Run'']) tok =
     Some (Inr [sample_processed 1])"
  by code_simp

lemma sample_incremental:
  "map_option fst
     (performBackgroundSync (upstream_env (\<lambda>n. None) [sample_raw 1 ''Run'', sample_raw 2 ''Ride''])
        ''42'' ''token'' False one_stored) = Some (Completed 1 1)"
  by code_simp

lemma sample_full:
  "map_option fst
     (performBackgroundSync (upstream_env (\<lambda>n. None) [sample_raw 1 ''Run'', sample_raw 2 ''Ride''])
        ''42'' ''token'' True one_stored) = Some (Completed 2 0)"
  by code_simp


text \<open>
  Claim C8. \<open>activityExists\<close> always returns normally and leaves the table as it is;
  when its request to the table is rejected it answers \<open>False\<close>. In the loop of the
  incremental mode the lookup of the \<open>k\<close>-th fetched activity is request number
  \<open>sends w + k\<close>: when that request is rejected, the activity, tagged with the athlete,
  is in the list the loop hands to \<open>storeActivities\<close>, and \<open>storeActivities\<close> is
  called on that list.
\<close>

theorem activityExists_never_fails:
  "(\<exists>b. fst (activityExists e activityId w) = Inr b) \<and>
   table (snd (activityExists e activityId w)) = table w \<and>
   (dynamodb_send e (sends w) \<noteq> None \<longrightarrow> fst (activityExists e activityId w) = Inr False) \<and>
   (k < length newActivities \<and> dynamodb_send e (sends w + k) \<noteq> None \<longrightarrow>
      (\<exists>toStore skipped w1.
         check_duplicates e athlete newActivities [] 0 w = (Inr (toStore, skipped), w1) \<and>
         (newActivities ! k)\<lparr>athlete_id := Some athlete\<rparr> \<in> set toStore \<and>
         persist e athlete False newActivities w =
           (case storeActivities e toStore w1 of
              (Inl err, w2) \<Rightarrow> (Failed err, w2)
            | (Inr n, w2) \<Rightarrow> (Completed n skipped, getActivityCount e athlete w2))))"
proof (intro conjI impI)
  show "\<exists>b. fst (activityExists e activityId w) = Inr b" by (simp add: activityExists_eq)
  show "table (snd (activityExists e activityId w)) = table w" by (simp add: activityExists_eq)
  show "fst (activityExists e activityId w) = Inr False" if "dynamodb_send e (sends w) \<noteq> None"
    using that by (simp add: activityExists_eq)
next
  assume "k < length newActivities \<and> dynamodb_send e (sends w + k) \<noteq> None"
  then have k: "k < length newActivities" and f: "dynamodb_send e (sends w + k) \<noteq> None"
    by simp_all
  let ?toStore = "map (\<lambda>(n, a). a\<lparr>athlete_id := Some athlete\<rparr>)
      (filter (treated_as_new e (table w)) (enumerate (sends w) newActivities))"
  let ?skipped = "length (filter (\<lambda>p. \<not> treated_as_new e (table w) p)
      (enumerate (sends w) newActivities))"
  let ?w1 = "w\<lparr>sends := sends w + length newActivities,
       trace := trace w @
         map (\<lambda>(n, a). Sent (GetCommand (activity_id a)) (dynamodb_send e n))
           (enumerate (sends w) newActivities)\<rparr>"
  have c: "check_duplicates e athlete newActivities [] 0 w = (Inr (?toStore, ?skipped), ?w1)"
    by (simp add: check_duplicates_eq)
  have "(sends w + k, newActivities ! k) \<in> set (enumerate (sends w) newActivities)"
    by (rule enumerate_nth_mem[OF k])
  moreover have "treated_as_new e (table w) (sends w + k, newActivities ! k)"
    using f by (simp add: treated_as_new_def)
  ultimately have "(sends w + k, newActivities ! k) \<in>
      set (filter (treated_as_new e (table w)) (enumerate (sends w) newActivities))"
    by simp
  then have "(\<lambda>(n, a). a\<lparr>athlete_id := Some athlete\<rparr>) (sends w + k, newActivities ! k)
      \<in> set ?toStore"
    unfolding set_map by (rule imageI)
  then have m: "(newActivities ! k)\<lparr>athlete_id := Some athlete\<rparr> \<in> set ?toStore"
    by simp
  then have "length ?toStore > 0" by (rule length_pos_if_in_set)
  then have p: "persist e athlete False newActivities w =
      (case storeActivities e ?toStore ?w1 of
         (Inl err, w2) \<Rightarrow> (Failed err, w2)
       | (Inr n, w2) \<Rightarrow> (Completed n ?skipped, getActivityCount e athlete w2))"
    unfolding persist_def c by simp
  from c m p show "\<exists>toStore skipped w1.
         check_duplicates e athlete newActivities [] 0 w = (Inr (toStore, skipped), w1) \<and>
         (newActivities ! k)\<lparr>athlete_id := Some athlete\<rparr> \<in> set toStore \<and>
         persist e athlete False newActivities w =
           (case storeActivities e toStore w1 of
              (Inl err, w2) \<Rightarrow> (Failed err, w2)
            | (Inr n, w2) \<Rightarrow> (Completed n skipped, getActivityCount e athlete w2))"
    by blast
qed


text \<open>
  Every request fails: activity 1 is in the table, its lookup answers \<open>False\<close>, and the
  loop puts the fetched activity 1 on the list to store.
\<close>

theorem activityExists_never_fails_witness:
  "table one_stored 1 \<noteq> None \<and>
   dynamodb_send (sample_env (\<lambda>n. Some ''InternalServerError'')) (sends one_stored) \<noteq> None \<and>
   fst (activityExists (sample_env (\<lambda>n. Some ''InternalServerError'')) 1 one_stored) = Inr False \<and>
   (\<exists>toStore skipped w1.
      check_duplicates (sample_env (\<lambda>n. Some ''InternalServerError'')) ''42''
        [sample_processed 1] [] 0 one_stored = (Inr (toStore, skipped), w1) \<and>
      (sample_processed 1)\<lparr>athlete_id := Some ''42''\<rparr> \<in> set toStore)"
proof -
  let ?e = "sample_env (\<lambda>n. Some ''InternalServerError'')"
  have t: "table one_stored 1 \<noteq> None" by (simp add: one_stored_def)
  have d: "dynamodb_send ?e (sends one_stored) \<noteq> None" by (simp add: sample_env_def)
  have d0: "dynamodb_send ?e (sends one_stored + 0) \<noteq> None" using d by simp
  note th = activityExists_never_fails[of ?e 1 one_stored 0 "[sample_processed 1]" "''42''"]
  from th d have 1: "fst (activityExists ?e 1 one_stored) = Inr False" by blast
  have len: "0 < length [sample_processed 1]" by simp
  from th len d0 have "\<exists>toStore skipped w1.
      check_duplicates ?e ''42'' [sample_processed 1] [] 0 one_stored = (Inr (toStore, skipped), w1) \<and>
      ([sample_processed 1] ! 0)\<lparr>athlete_id := Some ''42''\<rparr> \<in> set toStore"
    by blast
  then have 2: "\<exists>toStore skipped w1.
      check_duplicates ?e ''42'' [sample_processed 1] [] 0 one_stored = (Inr (toStore, skipped), w1) \<and>
      (sample_processed 1)\<lparr>athlete_id := Some ''42''\<rparr> \<in> set toStore"
    by (simp only: nth_Cons_0)
  from t d 1 2 show ?thesis by blast
qed

lemma persist_frame:
  assumes "persist e athlete True newActivities w = (outcome, w')"
  shows "(\<forall>k. k \<notin> activity_id ` set newActivities \<longrightarrow> table w' k = table w k) \<and>
    dom (table w) \<subseteq> dom (table w')"
proof -
  let ?xs = "map (\<lambda>a. a\<lparr>athlete_id := Some athlete\<rparr>) newActivities"
  obtain r w1 where s: "storeActivities e ?xs w = (r, w1)"
    by (cases "storeActivities e ?xs w")
  have ids: "activity_id ` set ?xs = activity_id ` set newActivities"
    by (simp add: image_image)
  from assms s have "table w' = table w1"
    by (cases r) (auto simp: persist_def Let_def getActivityCount_eq)
  then show ?thesis using storeActivities_frame[OF s] ids by simp
qed


text \<open>
  Claim C9. After a run in full mode, whatever the outcome of each request, every key the
  table held is still held, and the entry under every identifier that is not among the
  fetched activities is what it was; when the fetch fails nothing is written at all. The
  sync path sends point lookups, batch writes of put requests and count queries only: no
  delete request exists in it.
\<close>

theorem full_sync_keeps_other_records:
  assumes "performBackgroundSync e athlete accessToken True w = Some (outcome, w')"
  shows "dom (table w) \<subseteq> dom (table w') \<and>
    (\<forall>newActivities k. fetchStravaActivities e accessToken = Some (Inr newActivities) \<and>
        k \<notin> activity_id ` set newActivities \<longrightarrow> table w' k = table w k) \<and>
    (\<forall>err. fetchStravaActivities e accessToken = Some (Inl err) \<longrightarrow> table w' = table w)"
proof (cases "fetchStravaActivities e accessToken")
  case None
  with assms show ?thesis by (simp add: performBackgroundSync_def)
next
  case (Some fetched)
  show ?thesis
  proof (cases fetched)
    case (Inl err)
    with Some assms show ?thesis by (auto simp: performBackgroundSync_def)
  next
    case (Inr newActivities)
    with Some assms have "persist e athlete True newActivities w = (outcome, w')"
      by (simp add: performBackgroundSync_def)
    from persist_frame[OF this] show ?thesis using Some Inr by simp
  qed
qed



text \<open>
  The table holds activities 1 and 5 and the provider lists activity 1 only: activity 5 is
  untouched by the full sync.
\<close>

theorem full_sync_keeps_other_records_witness:
  "fetchStravaActivities (upstream_env (\<lambda>n. None) [sample_raw 1 ''Run'']) ''token'' =
     Some (Inr [sample_processed 1]) \<and>
   5 \<notin> activity_id ` set [sample_processed 1] \<and>
   (\<exists>outcome w'.
      performBackgroundSync (upstream_env (\<lambda>n. None) [sample_raw 1 ''Run'']) ''42'' ''token''
        True two_stored = Some (outcome, w') \<and>
      table w' 5 = Some (sample_activity 5) \<and> dom (table two_stored) \<subseteq> dom (table w'))"
proof -
  let ?e = "upstream_env (\<lambda>n. None) [sample_raw 1 ''Run'']"
  have f: "fetchStravaActivities ?e ''token'' = Some (Inr [sample_processed 1])"
    by (rule sample_fetch1)
  have n: "5 \<notin> activity_id ` set [sample_processed 1]" by (simp add: sample_processed_def)
  obtain outcome w' where
    p: "performBackgroundSync ?e ''42'' ''token'' True two_stored = Some (outcome, w')"
    by (cases "persist ?e ''42'' True [sample_processed 1] two_stored")
      (simp add: performBackgroundSync_def f)
  from full_sync_keeps_other_records[OF p] f n
  have "table w' 5 = table two_stored 5" "dom (table two_stored) \<subseteq> dom (table w')" by blast+
  then have "table w' 5 = Some (sample_activity 5)" "dom (table two_stored) \<subseteq> dom (table w')"
    by (simp_all add: two_stored_def)
  with f n p show ?thesis by blast
qed


text \<open>
  Claim C1, as the code has it. In incremental mode every fetched activity gets one point
  lookup, in order, before anything is written; every item written in the run is a fetched
  activity, tagged with the athlete and stamped, whose lookup failed or whose identifier
  the table did not hold. So when no lookup fails, no identifier the table held is written
  again, and a completed run reports as stored the number of fetched activities that were
  absent and as skipped the number that were present. In full mode no lookup is sent, and
  a completed run has written every fetched activity, tagged and stamped, in order and in
  batches; afterwards the table holds, under the identifier of every fetched activity, a
  fetched activity with that identifier, whatever it held before.
\<close>

theorem sync_modes:
  assumes "fetchStravaActivities e accessToken = Some (Inr newActivities)"
    and "performBackgroundSync e athlete accessToken full_sync w = Some (outcome, w')"
  shows "(\<not> full_sync \<longrightarrow>
      lookups (trace w') = lookups (trace w) @ map activity_id newActivities \<and>
      (\<exists>cmds. writes (trace w') = writes (trace w) @ cmds \<and>
         (\<forall>item \<in> set (concat cmds). \<exists>k < length newActivities.
            stamped item ((newActivities ! k)\<lparr>athlete_id := Some athlete\<rparr>) \<and>
            (dynamodb_send e (sends w + k) \<noteq> None \<or> table w (activity_id item) = None)) \<and>
         ((\<forall>k < length newActivities. dynamodb_send e (sends w + k) = None) \<longrightarrow>
            (\<forall>item \<in> set (concat cmds). table w (activity_id item) = None) \<and>
            (\<forall>stored skipped. outcome = Completed stored skipped \<longrightarrow>
               stored = length (filter (\<lambda>a. table w (activity_id a) = None) newActivities) \<and>
               skipped = length (filter (\<lambda>a. table w (activity_id a) \<noteq> None) newActivities))))) \<and>
    (full_sync \<longrightarrow>
      lookups (trace w') = lookups (trace w) \<and>
      (\<forall>stored skipped. outcome = Completed stored skipped \<longrightarrow>
         stored = length newActivities \<and> skipped = 0 \<and>
         (\<exists>cmds. writes (trace w') = writes (trace w) @ cmds \<and>
            list_all2 stamped (concat cmds)
              (map (\<lambda>a. a\<lparr>athlete_id := Some athlete\<rparr>) newActivities)) \<and>
         (\<forall>a \<in> set newActivities. \<exists>a' \<in> set newActivities. activity_id a' = activity_id a \<and>
            (\<exists>item. table w' (activity_id a) = Some item \<and>
               stamped item (a'\<lparr>athlete_id := Some athlete\<rparr>)))))"
proof (intro conjI impI)
  assume "full_sync"
  with assms have "persist e athlete True newActivities w = (outcome, w')"
    by (simp add: performBackgroundSync_def)
  note pf = persist_full[OF this]
  show "lookups (trace w') = lookups (trace w)" using pf by (rule conjunct1)
  show "\<forall>stored skipped. outcome = Completed stored skipped \<longrightarrow>
         stored = length newActivities \<and> skipped = 0 \<and>
         (\<exists>cmds. writes (trace w') = writes (trace w) @ cmds \<and>
            list_all2 stamped (concat cmds)
              (map (\<lambda>a. a\<lparr>athlete_id := Some athlete\<rparr>) newActivities)) \<and>
         (\<forall>a \<in> set newActivities. \<exists>a' \<in> set newActivities. activity_id a' = activity_id a \<and>
            (\<exists>item. table w' (activity_id a) = Some item \<and>
               stamped item (a'\<lparr>athlete_id := Some athlete\<rparr>)))"
    using pf by (rule conjunct2)
next
  assume "\<not> full_sync"
  with assms have "persist e athlete False newActivities w = (outcome, w')"
    by (simp add: performBackgroundSync_def)
  note pi = persist_incremental[OF this]
  have l: "lookups (trace w') = lookups (trace w) @ map activity_id newActivities"
    using pi by (rule conjunct1)
  have cnt: "\<forall>stored skipped. outcome = Completed stored skipped \<longrightarrow>
       stored = length (filter (treated_as_new e (table w)) (enumerate (sends w) newActivities)) \<and>
       skipped = length (filter (\<lambda>p. \<not> treated_as_new e (table w) p)
                          (enumerate (sends w) newActivities))"
    using conjunct2[OF conjunct2[OF pi]] .
  from conjunct1[OF conjunct2[OF pi]] obtain cmds where
    wr: "writes (trace w') = writes (trace w) @ cmds" and
    it: "\<forall>item \<in> set (concat cmds). \<exists>k < length newActivities.
          stamped item ((newActivities ! k)\<lparr>athlete_id := Some athlete\<rparr>) \<and>
          treated_as_new e (table w) (sends w + k, newActivities ! k)"
    by (elim exE conjE)
  show "lookups (trace w') = lookups (trace w) @ map activity_id newActivities" by (rule l)
  have origin: "\<exists>k. k < length newActivities \<and>
            stamped item ((newActivities ! k)\<lparr>athlete_id := Some athlete\<rparr>) \<and>
            (dynamodb_send e (sends w + k) \<noteq> None \<or> table w (activity_id item) = None)"
    if "item \<in> set (concat cmds)" for item
  proof -
    from it that obtain k where k: "k < length newActivities"
      "stamped item ((newActivities ! k)\<lparr>athlete_id := Some athlete\<rparr>)"
      "treated_as_new e (table w) (sends w + k, newActivities ! k)" by blast
    have i: "activity_id item = activity_id (newActivities ! k)"
      using stamped_id[OF k(2)] by simp
    from k(3) have "dynamodb_send e (sends w + k) \<noteq> None \<or>
        table w (activity_id (newActivities ! k)) = None"
      by (simp add: treated_as_new_def)
    then have "dynamodb_send e (sends w + k) \<noteq> None \<or> table w (activity_id item) = None"
      unfolding i .
    with k(1,2) show ?thesis by (intro exI[of _ k] conjI)
  qed
  have it': "\<forall>item \<in> set (concat cmds). \<exists>k < length newActivities.
            stamped item ((newActivities ! k)\<lparr>athlete_id := Some athlete\<rparr>) \<and>
            (dynamodb_send e (sends w + k) \<noteq> None \<or> table w (activity_id item) = None)"
    using origin by blast
  have quiet: "(\<forall>item \<in> set (concat cmds). table w (activity_id item) = None) \<and>
            (\<forall>stored skipped. outcome = Completed stored skipped \<longrightarrow>
               stored = length (filter (\<lambda>a. table w (activity_id a) = None) newActivities) \<and>
               skipped = length (filter (\<lambda>a. table w (activity_id a) \<noteq> None) newActivities))"
    if nf: "\<forall>k < length newActivities. dynamodb_send e (sends w + k) = None"
  proof (rule conjI)
    show "\<forall>item \<in> set (concat cmds). table w (activity_id item) = None"
    proof
      fix item assume "item \<in> set (concat cmds)"
      from origin[OF this] obtain k where "k < length newActivities"
        "dynamodb_send e (sends w + k) \<noteq> None \<or> table w (activity_id item) = None" by blast
      moreover from this(1) nf have "dynamodb_send e (sends w + k) = None" by blast
      ultimately show "table w (activity_id item) = None" by blast
    qed
    show "\<forall>stored skipped. outcome = Completed stored skipped \<longrightarrow>
               stored = length (filter (\<lambda>a. table w (activity_id a) = None) newActivities) \<and>
               skipped = length (filter (\<lambda>a. table w (activity_id a) \<noteq> None) newActivities)"
      using cnt unfolding treated_quiet(1)[OF nf] treated_quiet(2)[OF nf] .
  qed
  show "\<exists>cmds. writes (trace w') = writes (trace w) @ cmds \<and>
         (\<forall>item \<in> set (concat cmds). \<exists>k < length newActivities.
            stamped item ((newActivities ! k)\<lparr>athlete_id := Some athlete\<rparr>) \<and>
            (dynamodb_send e (sends w + k) \<noteq> None \<or> table w (activity_id item) = None)) \<and>
         ((\<forall>k < length newActivities. dynamodb_send e (sends w + k) = None) \<longrightarrow>
            (\<forall>item \<in> set (concat cmds). table w (activity_id item) = None) \<and>
            (\<forall>stored skipped. outcome = Completed stored skipped \<longrightarrow>
               stored = length (filter (\<lambda>a. table w (activity_id a) = None) newActivities) \<and>
               skipped = length (filter (\<lambda>a. table w (activity_id a) \<noteq> None) newActivities)))"
  proof (intro exI[of _ cmds] conjI impI)
    show "writes (trace w') = writes (trace w) @ cmds" by (rule wr)
    show "\<forall>item \<in> set (concat cmds). \<exists>k < length newActivities.
            stamped item ((newActivities ! k)\<lparr>athlete_id := Some athlete\<rparr>) \<and>
            (dynamodb_send e (sends w + k) \<noteq> None \<or> table w (activity_id item) = None)"
      by (rule it')
  next
    assume nf: "\<forall>k < length newActivities. dynamodb_send e (sends w + k) = None"
    show "\<forall>item \<in> set (concat cmds). table w (activity_id item) = None"
      using quiet[OF nf] by (rule conjunct1)
    show "\<forall>stored skipped. outcome = Completed stored skipped \<longrightarrow>
               stored = length (filter (\<lambda>a. table w (activity_id a) = None) newActivities) \<and>
               skipped = length (filter (\<lambda>a. table w (activity_id a) \<noteq> None) newActivities)"
      using quiet[OF nf] by (rule conjunct2)
  qed
qed




text \<open>
  The provider lists activities 1 and 2, the table holds activity 1 and every request
  succeeds. The incremental run looks up 1 and 2, skips one, stores one, and writes nothing
  the table held; the full run sends no lookup and overwrites activity 1.
\<close>

theorem sync_modes_witness:
  "fetchStravaActivities (upstream_env (\<lambda>n. None) [sample_raw 1 ''Run'', sample_raw 2 ''Ride''])
     ''token'' = Some (Inr [sample_processed 1, (sample_processed 2)\<lparr>activity_type := Some ''ride''\<rparr>]) \<and>
   table one_stored 1 = Some (sample_activity 1) \<and> table one_stored 2 = None \<and>
   dynamodb_send (upstream_env (\<lambda>n. None) [sample_raw 1 ''Run'', sample_raw 2 ''Ride'']) 0 = None \<and>
   dynamodb_send (upstream_env (\<lambda>n. None) [sample_raw 1 ''Run'', sample_raw 2 ''Ride'']) 1 = None \<and>
   (\<exists>w'. performBackgroundSync
            (upstream_env (\<lambda>n. None) [sample_raw 1 ''Run'', sample_raw 2 ''Ride''])
            ''42'' ''token'' False one_stored = Some (Completed 1 1, w') \<and>
         lookups (trace w') = [1, 2] \<and>
         (\<forall>item \<in> set (concat (writes (trace w'))). table one_stored (activity_id item) = None)) \<and>
   (\<exists>w'. performBackgroundSync
            (upstream_env (\<lambda>n. None) [sample_raw 1 ''Run'', sample_raw 2 ''Ride''])
            ''42'' ''token'' True one_stored = Some (Completed 2 0, w') \<and>
         lookups (trace w') = [] \<and>
         (\<exists>item. table w' 1 = Some item \<and>
            stamped item ((sample_processed 1)\<lparr>athlete_id := Some ''42''\<rparr>)))"
proof -
  let ?e = "upstream_env (\<lambda>n. None) [sample_raw 1 ''Run'', sample_raw 2 ''Ride'']"
  let ?as = "[sample_processed 1, (sample_processed 2)\<lparr>activity_type := Some ''ride''\<rparr>]"
  have f: "fetchStravaActivities ?e ''token'' = Some (Inr ?as)" by (rule sample_fetch)
  have t: "table one_stored 1 = Some (sample_activity 1)" "table one_stored 2 = None"
    "lookups (trace one_stored) = []" "writes (trace one_stored) = []" "sends one_stored = 0"
    by (simp_all add: one_stored_def)
  have d: "dynamodb_send ?e 0 = None" "dynamodb_send ?e 1 = None"
    by (simp_all add: upstream_env_def sample_env_def)
  have nf: "\<forall>k < length ?as. dynamodb_send ?e (sends one_stored + k) = None"
    by (simp add: upstream_env_def sample_env_def)
  from sample_incremental obtain wi where
    pi: "performBackgroundSync ?e ''42'' ''token'' False one_stored = Some (Completed 1 1, wi)"
    by (cases "performBackgroundSync ?e ''42'' ''token'' False one_stored") auto
  from sample_full obtain wf where
    pf: "performBackgroundSync ?e ''42'' ''token'' True one_stored = Some (Completed 2 0, wf)"
    by (cases "performBackgroundSync ?e ''42'' ''token'' True one_stored") auto
  have nfalse: "\<not> False" by simp
  note inc = mp[OF conjunct1[OF sync_modes[OF f pi]] nfalse]
  have li: "lookups (trace wi) = lookups (trace one_stored) @ map activity_id ?as"
    using inc by (rule conjunct1)
  from conjunct2[OF inc] obtain cmds where
    c: "writes (trace wi) = writes (trace one_stored) @ cmds" and
    q: "(\<forall>k < length ?as. dynamodb_send ?e (sends one_stored + k) = None) \<longrightarrow>
         (\<forall>item \<in> set (concat cmds). table one_stored (activity_id item) = None) \<and>
         (\<forall>stored skipped. Completed 1 1 = Completed stored skipped \<longrightarrow>
            stored = length (filter (\<lambda>a. table one_stored (activity_id a) = None) ?as) \<and>
            skipped = length (filter (\<lambda>a. table one_stored (activity_id a) \<noteq> None) ?as))"
    by (elim exE conjE)
  have c': "writes (trace wi) = cmds" using c by (simp only: t append_Nil)
  have wi: "\<forall>item \<in> set (concat (writes (trace wi))). table one_stored (activity_id item) = None"
    unfolding c' using mp[OF q nf] by (rule conjunct1)
  note full = mp[OF conjunct2[OF sync_modes[OF f pf]] TrueI]
  have lf: "lookups (trace wf) = lookups (trace one_stored)" using full by (rule conjunct1)
  have m: "sample_processed 1 \<in> set ?as" by simp
  from conjunct2[OF full] have over: "\<forall>a \<in> set ?as. \<exists>a' \<in> set ?as. activity_id a' = activity_id a \<and>
            (\<exists>item. table wf (activity_id a) = Some item \<and>
               stamped item (a'\<lparr>athlete_id := Some ''42''\<rparr>))"
    by blast
  from bspec[OF over m] obtain a' item where a': "a' \<in> set ?as"
    "activity_id a' = activity_id (sample_processed 1)"
    "table wf (activity_id (sample_processed 1)) = Some item"
    "stamped item (a'\<lparr>athlete_id := Some ''42''\<rparr>)" by blast
  have i1: "activity_id (sample_processed 1) = 1" by (simp add: sample_processed_def)
  have "a' = sample_processed 1"
    using a'(1,2) unfolding i1 by (auto simp: sample_processed_def)
  with a'(3,4) have wf: "\<exists>item. table wf 1 = Some item \<and>
            stamped item ((sample_processed 1)\<lparr>athlete_id := Some ''42''\<rparr>)"
    unfolding i1 by blast
  have li': "lookups (trace wi) = [1, 2]" using li by (simp add: t sample_processed_def)
  have lf': "lookups (trace wf) = []" using lf by (simp add: t)
  from f t(1,2) d pi li' wi pf lf' wf show ?thesis by blast
qed


text \<open>
  The claim as it was worded has no stored identifier ever written again in incremental
  mode. Here the table holds activity 1, the provider lists activity 1 and the lookup is
  rejected: the run writes activity 1 again and the table holds the new record.
\<close>

theorem incremental_rewrites_on_failed_lookup:
  "table one_stored 1 = Some (sample_activity 1) \<and>
   map_option (\<lambda>(outcome, w'). (outcome, lookups (trace w'), writes (trace w'), table w' 1))
     (performBackgroundSync
        (upstream_env (\<lambda>n. if n = 0 then Some ''InternalServerError'' else None)
           [sample_raw 1 ''Run''])
        ''42'' ''token'' False one_stored) =
   Some (Completed 1 0, [1],
     [[(sample_processed 1)\<lparr>athlete_id := Some ''42'', stored_at := Some 1000\<rparr>]],
     Some ((sample_processed 1)\<lparr>athlete_id := Some ''42'', stored_at := Some 1000\<rparr>))"
  by code_simp

subsection \<open>The detail route\<close>

lemma getCountry_returns: "\<exists>c. getCountryFromCoordinates env startLatlng = Inr c"
proof (cases startLatlng)
  case None
  then show ?thesis by (simp add: getCountryFromCoordinates_def)
next
  case (Some pair)
  show ?thesis
  proof (cases "length pair = 2")
    case False
    then show ?thesis using Some by (simp add: getCountryFromCoordinates_def)
  next
    case True
    let ?g = "getCountryFromGoogle env (pair ! 0) (pair ! 1)"
    let ?n = "getCountryFromNominatim env (pair ! 0) (pair ! 1)"
    have "getCountryFromCoordinates env startLatlng =
        (if usable ?g then ?g else if usable ?n then ?n
         else Inr (getCountryFromCoordinateRanges (pair ! 0) (pair ! 1)))"
      using True by (simp add: getCountryFromCoordinates_def Some Let_def)
    then show ?thesis using usable_nonempty[of ?g] usable_nonempty[of ?n] by auto
  qed
qed

lemma make_batches_single: "make_batches [a] 0 = [[a]]"
  by (subst make_batches.simps, simp, subst make_batches.simps, simp)

lemma storeActivities_single:
  "(\<exists>err. fst (storeActivities e [a] w) = Inl err \<and> table (snd (storeActivities e [a] w)) = table w) \<or>
   (fst (storeActivities e [a] w) = Inr 1 \<and>
    table (snd (storeActivities e [a] w)) =
      (table w)(activity_id a \<mapsto> a\<lparr>stored_at := Some (date_now e (sends w))\<rparr>))"
proof -
  let ?cmd = "[a\<lparr>stored_at := Some (date_now e (sends w))\<rparr>]"
  obtain r w' where r: "retry_loop e ?cmd (Suc 0) 0 w = (r, w')"
    by (cases "retry_loop e ?cmd (Suc 0) 0 w")
  have s: "storeActivities e [a] w = (case r of Inl err \<Rightarrow> (Inl err, w') | Inr k \<Rightarrow> (Inr k, w'))"
    by (cases r) (simp_all add: storeActivities_def make_batches_single r)
  from retry_loop_cases[OF r] show ?thesis
    unfolding s by (auto simp: put_items_Cons put_items_Nil)
qed

lemma storeActivities_single_ok:
  assumes "dynamodb_send e (sends w) = None"
  shows "fst (storeActivities e [a] w) = Inr 1"
  using assms by (simp add: storeActivities_def make_batches_single retry_ok Let_def)

lemma getActivity_ok:
  assumes "dynamodb_send e (sends w) = None"
  shows "getActivity e i w =
    (Inr (table w i), w\<lparr>sends := sends w + 1, trace := trace w @ [Sent (GetCommand i) None]\<rparr>)"
  by (simp add: getActivity_def send_get_ok[OF assms])


lemma activity_details_fetch:
  assumes "query_athlete_id req = Some athlete" "athlete \<noteq> []"
    and "dynamodb_send e (sends w) = None"
    and "\<not> (\<exists>a. table w (params_id req) = Some a \<and> 20 < length (coordinates a))"
    and "getValidAccessToken e athlete = Inr accessToken"
    and "strava_activity_by_id e accessToken (params_id req) = Inr sa"
    and "full = (case s_map sa of None \<Rightarrow> None | Some m \<Rightarrow> polyline m)"
    and "w1 = w\<lparr>sends := sends w + 1, trace := trace w @ [Sent (GetCommand (params_id req)) None]\<rparr>"
  shows "activity_details e req w =
    (if trainer sa \<or> manual sa \<or> s_type sa = ''VirtualRide'' \<or> s_type sa = ''VirtualRun'' \<or>
        start_latlng sa = None \<or> \<not> truthy full
     then (Status 404 ''Activity not found or is virtual'', w1)
     else if length (decodePolyline (the full)) < 3
     then (Status 404 ''Activity has insufficient GPS data'', w1)
     else case getCountryFromCoordinates e
            (Some [Fin (lat (decodePolyline (the full) ! 0)),
                   Fin (lng (decodePolyline (the full) ! 0))]) of
            Inl err \<Rightarrow> (on_error err, w1)
          | Inr c \<Rightarrow>
              (Json \<lparr>activity_id = s_id sa, athlete_id = Some athlete, name = s_name sa,
                     activity_type = mapStravaType (s_type sa), country = c,
                     isRace = (workout_type sa = Some 1 \<or>
                       includes_sub (toLowerCase (s_name sa)) ''race''),
                     coordinates = decodePolyline (the full), stored_at = None\<rparr>,
               snd (storeActivities e
                 [\<lparr>activity_id = s_id sa, athlete_id = Some athlete, name = s_name sa,
                   activity_type = mapStravaType (s_type sa), country = c,
                   isRace = (workout_type sa = Some 1 \<or>
                     includes_sub (toLowerCase (s_name sa)) ''race''),
                   coordinates = decodePolyline (the full), stored_at = None\<rparr>] w1)))"
proof -
  have g: "getActivity e (params_id req) w = (Inr (table w (params_id req)), w1)"
    unfolding assms(8) by (rule getActivity_ok[OF assms(3)])
  have n: "(case table w (params_id req) of
              None \<Rightarrow> None
            | Some a \<Rightarrow> if length (coordinates a) > 20 then Some a else None) = None"
    using assms(4) by (cases "table w (params_id req)") auto
  show ?thesis
    unfolding activity_details_def
    by (simp only: assms(1,2,5,6) g n assms(7)[symmetric] option.case sum.case prod.case if_False
        Let_def)
qed



text \<open>
  Claim C6, as the code has it. For a request that carries an \<^verbatim>\<open>athlete_id\<close> and whose
  lookup in the table succeeds: when the table holds a record for the identifier with more
  than 20 coordinates, that record is the response and the table is unchanged. Otherwise,
  when the token provider and the provider's single-activity request succeed, the activity
  is rejected with status 404 and nothing is stored if a flag is set, the type is
  \<^verbatim>\<open>VirtualRide\<close> or \<^verbatim>\<open>VirtualRun\<close>, the start coordinate or the full polyline is
  missing, or fewer than 3 coordinates decode; and otherwise the response is the activity
  normalized at detail level, with all the coordinates of the full polyline, and the table
  afterwards is either unchanged or holds that activity, stamped, under the upstream
  identifier; it holds it whenever the first write request succeeds.
\<close>

theorem detail_route:
  assumes "query_athlete_id req = Some athlete" "athlete \<noteq> []"
    and "dynamodb_send e (sends w) = None"
  shows
   "(\<forall>a. table w (params_id req) = Some a \<and> 20 < length (coordinates a) \<longrightarrow>
        fst (activity_details e req w) = Json a \<and>
        table (snd (activity_details e req w)) = table w) \<and>
    (\<forall>accessToken sa full.
        \<not> (\<exists>a. table w (params_id req) = Some a \<and> 20 < length (coordinates a)) \<and>
        getValidAccessToken e athlete = Inr accessToken \<and>
        strava_activity_by_id e accessToken (params_id req) = Inr sa \<and>
        full = (case s_map sa of None \<Rightarrow> None | Some m \<Rightarrow> polyline m) \<longrightarrow>
        (if trainer sa \<or> manual sa \<or> s_type sa = ''VirtualRide'' \<or> s_type sa = ''VirtualRun'' \<or>
            start_latlng sa = None \<or> \<not> truthy full \<or> length (decodePolyline (the full)) < 3
         then (\<exists>msg. fst (activity_details e req w) = Status 404 msg) \<and>
              table (snd (activity_details e req w)) = table w
         else (\<exists>detailed.
                 fst (activity_details e req w) = Json detailed \<and>
                 activity_id detailed = s_id sa \<and> athlete_id detailed = Some athlete \<and>
                 name detailed = s_name sa \<and>
                 coordinates detailed = decodePolyline (the full) \<and>
                 (table (snd (activity_details e req w)) = table w \<or>
                  (\<exists>t. table (snd (activity_details e req w)) =
                         (table w)(s_id sa \<mapsto> detailed\<lparr>stored_at := Some t\<rparr>))) \<and>
                 (dynamodb_send e (sends w + 1) = None \<longrightarrow>
                  (\<exists>t. table (snd (activity_details e req w)) =
                         (table w)(s_id sa \<mapsto> detailed\<lparr>stored_at := Some t\<rparr>))))))"
proof (intro conjI allI impI)
  fix a assume "table w (params_id req) = Some a \<and> 20 < length (coordinates a)"
  then have "activity_details e req w =
      (Json a, w\<lparr>sends := sends w + 1, trace := trace w @ [Sent (GetCommand (params_id req)) None]\<rparr>)"
    by (simp add: activity_details_def assms getActivity_ok)
  then show "fst (activity_details e req w) = Json a"
    and "table (snd (activity_details e req w)) = table w" by simp_all
next
  fix accessToken sa full
  assume h: "\<not> (\<exists>a. table w (params_id req) = Some a \<and> 20 < length (coordinates a)) \<and>
        getValidAccessToken e athlete = Inr accessToken \<and>
        strava_activity_by_id e accessToken (params_id req) = Inr sa \<and>
        full = (case s_map sa of None \<Rightarrow> None | Some m \<Rightarrow> polyline m)"
  define w1 where
    "w1 = w\<lparr>sends := sends w + 1, trace := trace w @ [Sent (GetCommand (params_id req)) None]\<rparr>"
  have t1: "table w1 = table w" "sends w1 = sends w + 1" by (simp_all add: w1_def)
  note eq = activity_details_fetch[OF assms conjunct1[OF h] conjunct1[OF conjunct2[OF h]]
      conjunct1[OF conjunct2[OF conjunct2[OF h]]] conjunct2[OF conjunct2[OF conjunct2[OF h]]] w1_def]
  let ?rej = "trainer sa \<or> manual sa \<or> s_type sa = ''VirtualRide'' \<or> s_type sa = ''VirtualRun'' \<or>
            start_latlng sa = None \<or> \<not> truthy full \<or> length (decodePolyline (the full)) < 3"
  show "if ?rej
         then (\<exists>msg. fst (activity_details e req w) = Status 404 msg) \<and>
              table (snd (activity_details e req w)) = table w
         else (\<exists>detailed.
                 fst (activity_details e req w) = Json detailed \<and>
                 activity_id detailed = s_id sa \<and> athlete_id detailed = Some athlete \<and>
                 name detailed = s_name sa \<and>
                 coordinates detailed = decodePolyline (the full) \<and>
                 (table (snd (activity_details e req w)) = table w \<or>
                  (\<exists>t. table (snd (activity_details e req w)) =
                         (table w)(s_id sa \<mapsto> detailed\<lparr>stored_at := Some t\<rparr>))) \<and>
                 (dynamodb_send e (sends w + 1) = None \<longrightarrow>
                  (\<exists>t. table (snd (activity_details e req w)) =
                         (table w)(s_id sa \<mapsto> detailed\<lparr>stored_at := Some t\<rparr>))))"
  proof (cases ?rej)
    case True
    then have "activity_details e req w = (Status 404 ''Activity not found or is virtual'', w1) \<or>
        activity_details e req w = (Status 404 ''Activity has insufficient GPS data'', w1)"
      unfolding eq by auto
    then have "(\<exists>msg. fst (activity_details e req w) = Status 404 msg) \<and>
              table (snd (activity_details e req w)) = table w"
      using t1(1) by auto
    with True show ?thesis by (simp only: if_True)
  next
    case False
    obtain c where c: "getCountryFromCoordinates e
            (Some [Fin (lat (decodePolyline (the full) ! 0)),
                   Fin (lng (decodePolyline (the full) ! 0))]) = Inr c"
      using getCountry_returns by blast
    define d where "d = \<lparr>activity_id = s_id sa, athlete_id = Some athlete, name = s_name sa,
                     activity_type = mapStravaType (s_type sa), country = c,
                     isRace = (workout_type sa = Some 1 \<or>
                       includes_sub (toLowerCase (s_name sa)) ''race''),
                     coordinates = decodePolyline (the full), stored_at = None\<rparr>"
    have r: "activity_details e req w = (Json d, snd (storeActivities e [d] w1))"
      using False unfolding eq c d_def by simp
    have f: "activity_id d = s_id sa" "athlete_id d = Some athlete" "name d = s_name sa"
      "coordinates d = decodePolyline (the full)" by (simp_all add: d_def)
    have alt: "table (snd (activity_details e req w)) = table w \<or>
                  (\<exists>t. table (snd (activity_details e req w)) =
                         (table w)(s_id sa \<mapsto> d\<lparr>stored_at := Some t\<rparr>))"
      using storeActivities_single[of e d w1] unfolding r t1 f(1) by auto
    have ok: "\<exists>t. table (snd (activity_details e req w)) =
                         (table w)(s_id sa \<mapsto> d\<lparr>stored_at := Some t\<rparr>)"
      if "dynamodb_send e (sends w + 1) = None"
    proof -
      from that have "fst (storeActivities e [d] w1) = Inr 1"
        by (intro storeActivities_single_ok) (simp add: t1)
      with storeActivities_single[of e d w1] show ?thesis unfolding r t1 f(1) by auto
    qed
    have "\<exists>detailed.
                 fst (activity_details e req w) = Json detailed \<and>
                 activity_id detailed = s_id sa \<and> athlete_id detailed = Some athlete \<and>
                 name detailed = s_name sa \<and>
                 coordinates detailed = decodePolyline (the full) \<and>
                 (table (snd (activity_details e req w)) = table w \<or>
                  (\<exists>t. table (snd (activity_details e req w)) =
                         (table w)(s_id sa \<mapsto> detailed\<lparr>stored_at := Some t\<rparr>))) \<and>
                 (dynamodb_send e (sends w + 1) = None \<longrightarrow>
                  (\<exists>t. table (snd (activity_details e req w)) =
                         (table w)(s_id sa \<mapsto> detailed\<lparr>stored_at := Some t\<rparr>)))"
      using f alt ok by (intro exI[of _ d] conjI impI) (simp_all add: r)
    with False show ?thesis by (simp only: if_False)
  qed
qed


text \<open>
  Athlete 42 asks for activity 7. From a table that holds it with 21 coordinates the stored
  record is served; from an empty table a run is fetched, returned with its three
  coordinates and stored; a virtual ride is answered with 404 and nothing is stored.
\<close>

theorem detail_route_witness:
  "query_athlete_id detail_request = Some ''42'' \<and>
   dynamodb_send (detail_env (\<lambda>n. None) ''Run'') 0 = None \<and>
   dynamodb_send (detail_env (\<lambda>n. None) ''Run'') 1 = None \<and>
   20 < length (coordinates (the (table detailed_stored 7))) \<and>
   fst (activity_details (detail_env (\<lambda>n. None) ''Run'') detail_request detailed_stored) =
     Json (the (table detailed_stored 7)) \<and>
   table (snd (activity_details (detail_env (\<lambda>n. None) ''Run'') detail_request detailed_stored)) =
     table detailed_stored \<and>
   table empty_world 7 = None \<and>
   strava_activity_by_id (detail_env (\<lambda>n. None) ''Run'') ''token'' 7 = Inr (sample_raw 7 ''Run'') \<and>
   (\<exists>detailed t.
      fst (activity_details (detail_env (\<lambda>n. None) ''Run'') detail_request empty_world) =
        Json detailed \<and>
      coordinates detailed = decodePolyline (code_units ''_p~iF~ps|U_ulLnnqC_mqNvxq`@'') \<and>
      table (snd (activity_details (detail_env (\<lambda>n. None) ''Run'') detail_request empty_world)) =
        (table empty_world)(7 \<mapsto> detailed\<lparr>stored_at := Some t\<rparr>)) \<and>
   (\<exists>msg. fst (activity_details (detail_env (\<lambda>n. None) ''VirtualRide'') detail_request
               empty_world) = Status 404 msg) \<and>
   table (snd (activity_details (detail_env (\<lambda>n. None) ''VirtualRide'') detail_request
               empty_world)) = table empty_world"
proof -
  let ?e = "detail_env (\<lambda>n. None) ''Run''" and ?v = "detail_env (\<lambda>n. None) ''VirtualRide''"
  let ?full = "Some (code_units ''_p~iF~ps|U_ulLnnqC_mqNvxq`@'')"
  have q: "query_athlete_id detail_request = Some ''42''" "''42'' \<noteq> []"
    "params_id detail_request = 7" by (simp_all add: detail_request_def)
  have d: "dynamodb_send ?e 0 = None" "dynamodb_send ?e 1 = None" "dynamodb_send ?v 0 = None"
    by (simp_all add: detail_env_def sample_env_def)
  have s: "sends detailed_stored = 0" "sends empty_world = 0" "table empty_world 7 = None"
    by (simp_all add: detailed_stored_def empty_world_def)
  have rich: "table detailed_stored 7 = Some (the (table detailed_stored 7)) \<and>
      20 < length (coordinates (the (table detailed_stored 7)))"
    by (simp add: detailed_stored_def)
  have d1: "dynamodb_send ?e (sends detailed_stored) = None" using d(1) by (simp only: s)
  have d2: "dynamodb_send ?e (sends empty_world) = None" using d(1) by (simp only: s)
  have d3: "dynamodb_send ?v (sends empty_world) = None" using d(3) by (simp only: s)
  have d4: "dynamodb_send ?e (sends empty_world + 1) = None" using d(2) by (simp add: s)
  note stored = mp[OF spec[OF conjunct1[OF detail_route[OF q(1,2) d1]]]]
  have a: "fst (activity_details ?e detail_request detailed_stored) =
      Json (the (table detailed_stored 7)) \<and>
    table (snd (activity_details ?e detail_request detailed_stored)) = table detailed_stored"
    using stored[of "the (table detailed_stored 7)"] rich unfolding q(3) by blast
  have tok: "getValidAccessToken ?e ''42'' = Inr ''token''" "getValidAccessToken ?v ''42'' = Inr ''token''"
    by (simp_all add: detail_env_def sample_env_def)
  have up: "strava_activity_by_id ?e ''token'' 7 = Inr (sample_raw 7 ''Run'')"
    "strava_activity_by_id ?v ''token'' 7 = Inr (sample_raw 7 ''VirtualRide'')"
    by (simp_all add: detail_env_def sample_env_def)
  have fl: "?full = (case s_map (sample_raw 7 ''Run'') of None \<Rightarrow> None | Some m \<Rightarrow> polyline m)"
    "?full = (case s_map (sample_raw 7 ''VirtualRide'') of None \<Rightarrow> None | Some m \<Rightarrow> polyline m)"
    by (simp_all add: sample_raw_def)
  have none: "\<not> (\<exists>a. table empty_world (params_id detail_request) = Some a \<and>
      20 < length (coordinates a))"
    by (simp add: q(3) s)
  have dec: "decodePolyline (the ?full) =
      [\<lparr>lat = 38.5, lng = -120.2\<rparr>, \<lparr>lat = 40.7, lng = -120.95\<rparr>, \<lparr>lat = 43.252, lng = -126.453\<rparr>]"
    by code_simp
  have accept: "\<not> (trainer (sample_raw 7 ''Run'') \<or> manual (sample_raw 7 ''Run'') \<or>
      s_type (sample_raw 7 ''Run'') = ''VirtualRide'' \<or> s_type (sample_raw 7 ''Run'') = ''VirtualRun'' \<or>
      start_latlng (sample_raw 7 ''Run'') = None \<or> \<not> truthy ?full \<or>
      length (decodePolyline (the ?full)) < 3)"
    unfolding dec by (simp add: sample_raw_def truthy_def code_units_def)
  have reject: "trainer (sample_raw 7 ''VirtualRide'') \<or> manual (sample_raw 7 ''VirtualRide'') \<or>
      s_type (sample_raw 7 ''VirtualRide'') = ''VirtualRide'' \<or>
      s_type (sample_raw 7 ''VirtualRide'') = ''VirtualRun'' \<or>
      start_latlng (sample_raw 7 ''VirtualRide'') = None \<or> \<not> truthy ?full \<or>
      length (decodePolyline (the ?full)) < 3"
    by (simp add: sample_raw_def)
  have h1: "\<not> (\<exists>a. table empty_world (params_id detail_request) = Some a \<and>
        20 < length (coordinates a)) \<and>
      getValidAccessToken ?e ''42'' = Inr ''token'' \<and>
      strava_activity_by_id ?e ''token'' (params_id detail_request) = Inr (sample_raw 7 ''Run'') \<and>
      ?full = (case s_map (sample_raw 7 ''Run'') of None \<Rightarrow> None | Some m \<Rightarrow> polyline m)"
    using none tok(1) up(1) fl(1) unfolding q(3) by (intro conjI)
  have h2: "\<not> (\<exists>a. table empty_world (params_id detail_request) = Some a \<and>
        20 < length (coordinates a)) \<and>
      getValidAccessToken ?v ''42'' = Inr ''token'' \<and>
      strava_activity_by_id ?v ''token'' (params_id detail_request) =
        Inr (sample_raw 7 ''VirtualRide'') \<and>
      ?full = (case s_map (sample_raw 7 ''VirtualRide'') of None \<Rightarrow> None | Some m \<Rightarrow> polyline m)"
    using none tok(2) up(2) fl(2) unfolding q(3) by (intro conjI)
  note r1 = mp[OF spec[OF spec[OF spec[OF conjunct2[OF detail_route[OF q(1,2) d2]]]]] h1]
  note r2 = mp[OF spec[OF spec[OF spec[OF conjunct2[OF detail_route[OF q(1,2) d3]]]]] h2]
  from r1[unfolded if_not_P[OF accept]] obtain detailed where
    b: "fst (activity_details ?e detail_request empty_world) = Json detailed"
      "coordinates detailed = decodePolyline (the ?full)"
      "dynamodb_send ?e (sends empty_world + 1) = None \<longrightarrow>
         (\<exists>t. table (snd (activity_details ?e detail_request empty_world)) =
            (table empty_world)(s_id (sample_raw 7 ''Run'') \<mapsto> detailed\<lparr>stored_at := Some t\<rparr>))"
    by (elim exE conjE)
  from b(3) d4 obtain t where
    "table (snd (activity_details ?e detail_request empty_world)) =
       (table empty_world)(s_id (sample_raw 7 ''Run'') \<mapsto> detailed\<lparr>stored_at := Some t\<rparr>)"
    by blast
  then have b3: "table (snd (activity_details ?e detail_request empty_world)) =
       (table empty_world)(7 \<mapsto> detailed\<lparr>stored_at := Some t\<rparr>)"
    by (simp add: sample_raw_def)
  have b': "\<exists>detailed t.
      fst (activity_details ?e detail_request empty_world) = Json detailed \<and>
      coordinates detailed = decodePolyline (code_units ''_p~iF~ps|U_ulLnnqC_mqNvxq`@'') \<and>
      table (snd (activity_details ?e detail_request empty_world)) =
        (table empty_world)(7 \<mapsto> detailed\<lparr>stored_at := Some t\<rparr>)"
    using b(1,2) b3 by (intro exI[of _ detailed] exI[of _ t]) simp
  have c: "(\<exists>msg. fst (activity_details ?v detail_request empty_world) = Status 404 msg) \<and>
      table (snd (activity_details ?v detail_request empty_world)) = table empty_world"
    using r2[unfolded if_P[OF reject]] .
  from q(1) d(1,2) rich a s(3) up(1) b' c show ?thesis by blast
qed


text \<open>
  The claim as it was worded has every accepted activity stored and returned. Here the
  lookup succeeds and every later request to the table is rejected: the handler catches
  the failure of \<open>storeActivities\<close>, answers with the activity, and the table stays
  empty.
\<close>

theorem detail_route_returns_unstored:
  "fst (activity_details (detail_env (\<lambda>n. if n = 0 then None else Some ''InternalServerError'') ''Run'')
        detail_request empty_world) =
     Json ((sample_processed 7)\<lparr>athlete_id := Some ''42''\<rparr>) \<and>
   table (snd (activity_details
        (detail_env (\<lambda>n. if n = 0 then None else Some ''InternalServerError'') ''Run'')
        detail_request empty_world)) 7 = None"
  by code_simp


text \<open>
  The list route only lets the three supported types through, for every provider and
  every page.
\<close>

lemma processActivity_type:
  assumes "processActivity e a = Inr (Some p)"
  shows "activity_type p \<in> set [Some ''run'', Some ''ride'', Some ''swim'']"
proof -
  let ?t = "mapStravaType (s_type a)"
  have "?t \<in> set [Some ''run'', Some ''ride'', Some ''swim''] \<and> activity_type p = ?t"
    using assms unfolding processActivity_def Let_def
    by (simp split: if_splits option.splits sum.splits) auto
  then show ?thesis by simp
qed

lemma process_page_types:
  assumes "process_page e pageActivities acc = Inr out"
    and "\<forall>a \<in> set acc. activity_type a \<in> set [Some ''run'', Some ''ride'', Some ''swim'']"
  shows "\<forall>a \<in> set out. activity_type a \<in> set [Some ''run'', Some ''ride'', Some ''swim'']"
  using assms
proof (induction pageActivities arbitrary: acc)
  case Nil
  then show ?case by simp
next
  case (Cons x xs)
  show ?case
  proof (cases "processActivity e x")
    case (Inl err)
    with Cons.prems show ?thesis by simp
  next
    case (Inr r)
    show ?thesis
    proof (cases r)
      case None
      with Inr Cons.prems have "process_page e xs acc = Inr out" by simp
      from Cons.IH[OF this Cons.prems(2)] show ?thesis .
    next
      case (Some p)
      with Inr Cons.prems have 1: "process_page e xs (acc @ [p]) = Inr out" by simp
      have "activity_type p \<in> set [Some ''run'', Some ''ride'', Some ''swim'']"
        using processActivity_type Inr Some by blast
      with Cons.prems(2) have 2: "\<forall>a \<in> set (acc @ [p]).
          activity_type a \<in> set [Some ''run'', Some ''ride'', Some ''swim'']" by auto
      from Cons.IH[OF 1 2] show ?thesis .
    qed
  qed
qed

lemma fetch_pages_types:
  assumes "fetch_pages e accessToken page acc = Some r"
    and "\<forall>a \<in> set acc. activity_type a \<in> set [Some ''run'', Some ''ride'', Some ''swim'']"
    and "r = Inr out"
  shows "\<forall>a \<in> set out. activity_type a \<in> set [Some ''run'', Some ''ride'', Some ''swim'']"
  using assms(2,3)
proof (induction rule: fetch_pages.raw_induct[OF _ assms(1)])
  case (1 f e accessToken page acc r)
  show ?case
  proof (cases "strava_activities e accessToken page")
    case (Inl err)
    with "1.hyps" "1.prems" show ?thesis by auto
  next
    case (Inr pageActivities)
    note page = this
    show ?thesis
    proof (cases "length pageActivities = 0")
      case True
      with page "1.hyps" "1.prems" show ?thesis by auto
    next
      case False
      show ?thesis
      proof (cases "process_page e pageActivities acc")
        case (Inl err)
        with page False "1.hyps" "1.prems" show ?thesis by auto
      next
        case (Inr acc')
        with page False "1.hyps" have "f e accessToken (page + 1) acc' = Some r" by simp
        from "1.IH"[OF this process_page_types[OF Inr "1.prems"(1)] "1.prems"(2)]
        show ?thesis .
      qed
    qed
  qed
qed

lemma list_route_types:
  assumes "fetchStravaActivities e accessToken = Some (Inr newActivities)"
  shows "\<forall>a \<in> set newActivities. activity_type a \<in> set [Some ''run'', Some ''ride'', Some ''swim'']"
  using fetch_pages_types[OF assms[unfolded fetchStravaActivities_def] _ refl] by simp


text \<open>
  Claim C7 does not hold on the detail route, which stores \<open>mapStravaType\<close> of the
  upstream type without the check the list route makes: a kayaking tour with a start
  coordinate and a three-point polyline is answered and stored with the type \<^verbatim>\<open>null\<close>.
\<close>

theorem detail_route_stores_null_type:
  "fst (activity_details (detail_env (\<lambda>n. None) ''Kayaking'') detail_request empty_world) =
     Json ((sample_processed 7)\<lparr>athlete_id := Some ''42'', activity_type := None\<rparr>) \<and>
   table (snd (activity_details (detail_env (\<lambda>n. None) ''Kayaking'') detail_request empty_world)) 7 =
     Some ((sample_processed 7)\<lparr>athlete_id := Some ''42'', activity_type := None,
            stored_at := Some 1000\<rparr>)"
  by code_simp

subsection \<open>The rate limiter\<close>

lemma spaced_snoc:
  "spaced m ts \<Longrightarrow> \<forall>t \<in> set ts. t + m \<le> T \<Longrightarrow> spaced m (ts @ [T])"
  by (induction m ts rule: spaced.induct) auto

lemma starts_of_snoc:
  "starts_of a (calls @ [(b, T)]) = starts_of a calls @ (if a = b then [T] else [])"
  by (simp add: starts_of_def)

lemma rateLimitedCall_effect:
  assumes "lastApiCall s apiName \<le> clock s" and "0 \<le> drift"
  shows "\<exists>T. clock s \<le> T \<and> lastApiCall s apiName + minIntervalMs \<le> T \<and>
    rateLimitedCall apiName minIntervalMs drift s =
      s\<lparr>clock := T, lastApiCall := (lastApiCall s)(apiName := T),
        started := started s @ [(apiName, T)]\<rparr>"
proof (cases "clock s - lastApiCall s apiName < minIntervalMs")
  case True
  let ?T = "clock s + (minIntervalMs - (clock s - lastApiCall s apiName)) + drift"
  have "rateLimitedCall apiName minIntervalMs drift s =
      s\<lparr>clock := ?T, lastApiCall := (lastApiCall s)(apiName := ?T),
        started := started s @ [(apiName, ?T)]\<rparr>"
    using True
    by (simp add: rateLimitedCall_def rateLimitedCall_begin_def rateLimitedCall_resume_def
        stamp_def Let_def)
  moreover have "clock s \<le> ?T" "lastApiCall s apiName + minIntervalMs \<le> ?T"
    using True assms(2) by simp_all
  ultimately show ?thesis by blast
next
  case False
  have "rateLimitedCall apiName minIntervalMs drift s =
      s\<lparr>clock := clock s, lastApiCall := (lastApiCall s)(apiName := clock s),
        started := started s @ [(apiName, clock s)]\<rparr>"
    using False
    by (simp add: rateLimitedCall_def rateLimitedCall_begin_def stamp_def Let_def)
  moreover have "lastApiCall s apiName + minIntervalMs \<le> clock s" using False by simp
  ultimately show ?thesis by blast
qed

lemma in_order_call:
  assumes "in_order s" and "0 \<le> drift"
  shows "in_order (rateLimitedCall apiName (interval apiName) drift (s\<lparr>clock := clock s + int idle\<rparr>))"
proof -
  let ?s = "s\<lparr>clock := clock s + int idle\<rparr>"
  have l: "lastApiCall ?s apiName \<le> clock ?s"
    using assms(1) by (simp add: in_order_def) (metis add_increasing2 of_nat_0_le_iff)
  from rateLimitedCall_effect[OF l assms(2), of "interval apiName"] obtain T where
    T: "clock ?s \<le> T" "lastApiCall ?s apiName + interval apiName \<le> T" and
    r: "rateLimitedCall apiName (interval apiName) drift ?s =
      ?s\<lparr>clock := T, lastApiCall := (lastApiCall ?s)(apiName := T),
        started := started ?s @ [(apiName, T)]\<rparr>" by blast
  have c: "clock s \<le> T" using T(1) by simp
  have old: "\<forall>t \<in> set (starts_of apiName (started s)). t + interval apiName \<le> T"
  proof
    fix t assume "t \<in> set (starts_of apiName (started s))"
    with assms(1) have "t \<le> lastApiCall s apiName" by (simp add: in_order_def)
    with T(2) show "t + interval apiName \<le> T" by simp
  qed
  have pos: "0 \<le> interval apiName" by (cases apiName) (simp_all add: interval_def)
  show ?thesis
    unfolding r in_order_def
  proof (intro conjI allI ballI)
    fix a
    show "lastApiCall (?s\<lparr>clock := T, lastApiCall := (lastApiCall ?s)(apiName := T),
        started := started ?s @ [(apiName, T)]\<rparr>) a \<le>
      clock (?s\<lparr>clock := T, lastApiCall := (lastApiCall ?s)(apiName := T),
        started := started ?s @ [(apiName, T)]\<rparr>)"
      using assms(1) c by (auto simp: in_order_def intro: order_trans)
    show "spaced (interval a) (starts_of a (started (?s\<lparr>clock := T,
        lastApiCall := (lastApiCall ?s)(apiName := T),
        started := started ?s @ [(apiName, T)]\<rparr>)))"
      using assms(1) old by (auto simp: in_order_def starts_of_snoc intro: spaced_snoc)
  next
    fix a t
    assume "t \<in> set (starts_of a (started (?s\<lparr>clock := T,
        lastApiCall := (lastApiCall ?s)(apiName := T),
        started := started ?s @ [(apiName, T)]\<rparr>)))"
    then have "t \<in> set (starts_of a (started s)) \<or> (a = apiName \<and> t = T)"
      by (auto simp: starts_of_snoc split: if_splits)
    then show "t \<le> lastApiCall (?s\<lparr>clock := T, lastApiCall := (lastApiCall ?s)(apiName := T),
        started := started ?s @ [(apiName, T)]\<rparr>) a"
      using assms(1) old pos by (auto simp: in_order_def)
  qed
qed

lemma in_order_sequential:
  "in_order s \<Longrightarrow> \<forall>c \<in> set calls. 0 \<le> snd (snd c) \<Longrightarrow> in_order (sequential calls s)"
proof (induction calls arbitrary: s)
  case Nil
  then show ?case by simp
next
  case (Cons c calls)
  obtain idle apiName drift where c: "c = (idle, apiName, drift)" by (cases c)
  from Cons.prems(2) c have d: "0 \<le> drift" by simp
  from Cons.prems(2) have rest: "\<forall>c \<in> set calls. 0 \<le> snd (snd c)" by simp
  show ?case unfolding c sequential.simps
    by (rule Cons.IH[OF in_order_call[OF Cons.prems(1) d] rest])
qed

text \<open>
  What the limiter achieves. When the calls are made one after the other, each awaited
  before the next begins, and no timer callback runs before \<^verbatim>\<open>Date.now()\<close> has reached
  the time it was due, then every call to a tier is let through at least the tier's
  interval after the previous call to that tier.
\<close>

lemma sequential_calls_spaced:
  assumes "started s = []" and "\<forall>a. lastApiCall s a \<le> clock s"
    and "\<forall>c \<in> set calls. 0 \<le> snd (snd c)"
  shows "spaced (interval apiName) (starts_of apiName (started (sequential calls s)))"
proof -
  have "in_order s" using assms(1,2) by (simp add: in_order_def starts_of_def)
  from in_order_sequential[OF this assms(3)] show ?thesis by (simp add: in_order_def)
qed

text \<open>
  The wait is computed once and the clock is not read again before the stamp: a timer
  callback that runs when \<^verbatim>\<open>Date.now()\<close> is one millisecond short of the due time lets
  the second of two calls in a row through 99 ms after the first.
\<close>

lemma sequential_early_timer:
  "starts_of google (started (sequential [(0, google, 0), (10, google, - 1)] process_start)) =
     [1700000000000, 1700000000099] \<and>
   \<not> spaced (interval google)
     (starts_of google (started (sequential [(0, google, 0), (10, google, - 1)] process_start)))"
  by code_simp


text \<open>
  Claim C3 does not hold of the code. Nothing in \<open>rateLimitedCall\<close> makes callers queue.
  Callers 1 and 2 both begin 10 ms after a call to a tier, both read the same
  \<^verbatim>\<open>lastApiCall\<close>, both wait for the same instant, their timers fire exactly then, and
  both are let through at that instant: the two calls start 0 ms apart, on the Google
  tier (interval 100 ms) and on the Nominatim tier (interval 1100 ms) alike.
\<close>

theorem concurrent_calls_start_together:
  "starts_of google (started (run
     [Call 0 google, Tick 10, Call 1 google, Call 2 google, Tick 90, Wake 1, Wake 2]
     process_start)) = [1700000000000, 1700000000100, 1700000000100] \<and>
   \<not> spaced (interval google) (starts_of google (started (run
     [Call 0 google, Tick 10, Call 1 google, Call 2 google, Tick 90, Wake 1, Wake 2]
     process_start))) \<and>
   starts_of nominatim (started (run
     [Call 0 nominatim, Tick 10, Call 1 nominatim, Call 2 nominatim, Tick 1090, Wake 1, Wake 2]
     process_start)) = [1700000000000, 1700000001100, 1700000001100] \<and>
   \<not> spaced (interval nominatim) (starts_of nominatim (started (run
     [Call 0 nominatim, Tick 10, Call 1 nominatim, Call 2 nominatim, Tick 1090, Wake 1, Wake 2]
     process_start)))"
  by code_simp

end
